theory Spec2Isabelle
  imports Complex_Main
begin

section \<open>The relational schema\<close>

text \<open>
  The schema file declares the tables of the STRATUS Bug Advisor and two triggers. A table
  is modelled as the list of its rows, in insertion order. A column that the schema does
  not declare \<open>NOT NULL\<close> may hold SQL \<open>NULL\<close> and has an \<open>option\<close> type
  (\<open>None\<close> is \<open>NULL\<close>). A time is a number of seconds since the epoch (UTC). A \<open>REAL\<close> is
  a rational number: every binary64 value is one, and the arithmetic of the trigger
  rounds to binary64; only \<open>AVG\<close> is kept as the exact mean.
  Record fields carry a prefix for their table, since several tables name a column
  \<open>id\<close> or \<open>timestamp\<close>.
\<close>

type_synonym datetime = nat

text \<open>
  SQLite does not type a column: \<open>query_logs.timestamp\<close> holds whatever value was
  inserted. Its date functions read some values as a time, as the text that
  \<open>CURRENT_TIMESTAMP\<close> gives; any other value, as the text \<open>'n/a'\<close> or a Unix time stored as
  an integer, is not a time for them.
\<close>

datatype sql_datetime = TimeValue datetime | NotATime string

text \<open>Table \<open>query_logs\<close>.\<close>

record query_log =
  ql_id :: nat
  ql_product :: string
  ql_query_text :: string
  ql_query_length :: "int option"
  ql_response_time_ms :: "int option"
  ql_success :: "bool option"
  ql_error_message :: "string option"
  ql_timestamp :: "sql_datetime option"
  ql_ip_address :: "string option"
  ql_user_agent :: "string option"
  ql_query_hash :: "string option"

text \<open>Table \<open>feedback\<close>; \<open>query_id\<close> references \<open>query_logs(id)\<close> with \<open>ON DELETE CASCADE\<close>.\<close>

record feedback_row =
  fb_id :: nat
  fb_query_id :: "nat option"
  fb_query_hash :: "string option"
  fb_helpful :: "bool option"
  fb_feedback_text :: "string option"
  fb_timestamp :: "datetime option"
  fb_ip_address :: "string option"

text \<open>
  Table \<open>usage_stats\<close>. Its key \<open>date\<close> is a \<open>DATE PRIMARY KEY\<close> of an ordinary rowid
  table, which SQLite lets hold \<open>NULL\<close>; a calendar date is its day number.
\<close>

record usage_stat =
  us_date :: "nat option"
  us_total_queries :: "int option"
  us_successful_queries :: "int option"
  us_avg_response_time :: "rat option"
  us_success_rate :: "rat option"
  us_top_products :: "string option"
  us_unique_users :: "int option"
  us_total_errors :: "int option"

text \<open>Table \<open>response_cache\<close>.\<close>

record cache_row =
  rc_id :: nat
  rc_query_hash :: string
  rc_product :: string
  rc_response_text :: string
  rc_confidence :: "rat option"
  rc_created_at :: "datetime option"
  rc_expires_at :: "datetime option"
  rc_hit_count :: "int option"

text \<open>
  The database: the four tables above and the \<open>AUTOINCREMENT\<close> counters of
  \<open>query_logs\<close> and \<open>response_cache\<close>. The schema file inserts no row into any of
  them.
\<close>

record database =
  query_logs :: "query_log list"
  query_logs_seq :: nat
  feedback :: "feedback_row list"
  usage_stats :: "usage_stat list"
  response_cache :: "cache_row list"
  response_cache_seq :: nat

definition schema_init :: database where
  "schema_init = \<lparr>query_logs = [], query_logs_seq = 0, feedback = [],
     usage_stats = [], response_cache = [], response_cache_seq = 0\<rparr>"

section \<open>Floating-point arithmetic\<close>

text \<open>
  SQLite's \<open>REAL\<close> and JavaScript's numbers are IEEE binary64 values, and an operation on
  them gives the exact result rounded to the nearest binary64 value, to the even one of
  two nearest. \<open>round_double\<close> is that rounding, for magnitudes in the normal range (from
  \<open>2 ^ -1022\<close> to below \<open>2 ^ 1024\<close>), which the values here do not leave: the value is
  scaled by a power of two into \<open>2 ^ 52 .. 2 ^ 53\<close>, rounded to an integer and scaled back.
\<close>

fun bit_length :: "nat \<Rightarrow> nat" where
  "bit_length n = (if n = 0 then 0 else Suc (bit_length (n div 2)))"

declare bit_length.simps [simp del]

definition pow2 :: "int \<Rightarrow> rat" where
  "pow2 e = (if 0 \<le> e then 2 ^ nat e else 1 / 2 ^ nat (- e))"

text \<open>The binary exponent of a positive number \<open>a\<close>: the \<open>e\<close> with \<open>2 ^ e \<le> a < 2 ^ (e + 1)\<close>.\<close>

definition ilog2 :: "rat \<Rightarrow> int" where
  "ilog2 a =
     (if 1 \<le> a then int (bit_length (nat \<lfloor>a\<rfloor>)) - 1
      else (let b = int (bit_length (nat \<lfloor>1 / a\<rfloor>))
            in if 1 / a = pow2 (b - 1) then - (b - 1) else - b))"

definition round_half_even :: "rat \<Rightarrow> int" where
  "round_half_even y =
     (let f = \<lfloor>y\<rfloor>; d = y - of_int f
      in if d < 1 / 2 then f else if 1 / 2 < d then f + 1 else if even f then f else f + 1)"

definition round_double :: "rat \<Rightarrow> rat" where
  "round_double x =
     (if x = 0 then 0
      else (let q = ilog2 \<bar>x\<bar> - 52
            in sgn x * of_int (round_half_even (\<bar>x\<bar> / pow2 q)) * pow2 q))"

text \<open>Division and multiplication of binary64 values, and the conversion of an integer.\<close>

definition double_div :: "rat \<Rightarrow> rat \<Rightarrow> rat" where
  "double_div x y = round_double (x / y)"

definition double_mul :: "rat \<Rightarrow> rat \<Rightarrow> rat" where
  "double_mul x y = round_double (x * y)"

definition double_of_int :: "int \<Rightarrow> rat" where
  "double_of_int i = round_double (of_int i)"

section \<open>SQL expressions and aggregates\<close>

text \<open>
  \<open>DATE(t)\<close>: the calendar day of a time, and \<open>NULL\<close> for \<open>NULL\<close> and for a value that is
  not a time.
\<close>

definition DATE :: "sql_datetime option \<Rightarrow> nat option" where
  "DATE t = (case t of
               None \<Rightarrow> None
             | Some (TimeValue s) \<Rightarrow> Some (s div 86400)
             | Some (NotATime v) \<Rightarrow> None)"

text \<open>
  A comparison \<open>a = b\<close> in a \<open>WHERE\<close> clause keeps a row only when it is true; with a
  \<open>NULL\<close> operand it is \<open>NULL\<close>, and the row is dropped.
\<close>

definition sql_eq :: "'a option \<Rightarrow> 'a option \<Rightarrow> bool" where
  "sql_eq a b = (case (a, b) of (Some x, Some y) \<Rightarrow> x = y | _ \<Rightarrow> False)"

text \<open>
  Aggregates run over the selected rows one at a time. \<open>COUNT\<close> of \<open>*\<close> counts rows;
  \<open>SUM\<close> and \<open>AVG\<close> skip \<open>NULL\<close> and are \<open>NULL\<close> when no value is left.
\<close>

definition sql_count_star :: "'a list \<Rightarrow> int" where
  "sql_count_star rows = fold (\<lambda>_ n. n + 1) rows 0"

definition sum_step :: "int option \<Rightarrow> int option \<Rightarrow> int option" where
  "sum_step v acc = (case v of None \<Rightarrow> acc
     | Some x \<Rightarrow> (case acc of None \<Rightarrow> Some x | Some s \<Rightarrow> Some (s + x)))"

definition sql_sum :: "int option list \<Rightarrow> int option" where
  "sql_sum vs = fold sum_step vs None"

definition avg_step :: "int option \<Rightarrow> int \<times> nat \<Rightarrow> int \<times> nat" where
  "avg_step v acc = (case v of None \<Rightarrow> acc | Some x \<Rightarrow> (fst acc + x, Suc (snd acc)))"

definition avg_final :: "int \<times> nat \<Rightarrow> rat option" where
  "avg_final acc = (if snd acc = 0 then None else Some (of_int (fst acc) / of_nat (snd acc)))"

definition sql_avg :: "int option list \<Rightarrow> rat option" where
  "sql_avg vs = avg_final (fold avg_step vs (0, 0))"

text \<open>
  \<open>CAST(x AS REAL)\<close>, which is also the conversion of an integer operand of \<open>/\<close> or \<open>*\<close>
  whose other operand is a \<open>REAL\<close>; and \<open>/\<close> and \<open>*\<close> on two \<open>REAL\<close> values, in floating
  point. A division by zero is \<open>NULL\<close> in SQLite.
\<close>

definition sql_cast_real :: "int option \<Rightarrow> rat option" where
  "sql_cast_real v = map_option double_of_int v"

definition sql_div :: "rat option \<Rightarrow> rat option \<Rightarrow> rat option" where
  "sql_div a b = (case (a, b) of
     (Some x, Some y) \<Rightarrow> (if y = 0 then None else Some (double_div x y)) | _ \<Rightarrow> None)"

definition sql_mul :: "rat option \<Rightarrow> rat option \<Rightarrow> rat option" where
  "sql_mul a b = (case (a, b) of (Some x, Some y) \<Rightarrow> Some (double_mul x y) | _ \<Rightarrow> None)"

section \<open>Trigger \<open>update_usage_stats_after_query\<close>\<close>

text \<open>\<open>CASE WHEN success = 1 THEN 1 ELSE 0 END\<close>\<close>

definition success_flag :: "query_log \<Rightarrow> int option" where
  "success_flag r = (if ql_success r = Some True then Some 1 else Some 0)"

text \<open>The rows of \<open>WHERE DATE(timestamp) = DATE(NEW.timestamp)\<close>.\<close>

definition rows_of_date :: "query_log list \<Rightarrow> nat option \<Rightarrow> query_log list" where
  "rows_of_date logs d = filter (\<lambda>r. sql_eq (DATE (ql_timestamp r)) d) logs"

text \<open>
  The trigger's \<open>SELECT\<close>: one row of aggregates, also when no row is selected. The three
  columns that the \<open>INSERT\<close> does not list take their defaults.
\<close>

definition usage_stats_select :: "query_log list \<Rightarrow> query_log \<Rightarrow> usage_stat" where
  "usage_stats_select logs new =
     (let d = DATE (ql_timestamp new);
          rows = rows_of_date logs d
      in \<lparr>us_date = d,
          us_total_queries = Some (sql_count_star rows),
          us_successful_queries = sql_sum (map success_flag rows),
          us_avg_response_time = sql_avg (map ql_response_time_ms rows),
          us_success_rate =
            sql_mul (sql_div (sql_cast_real (sql_sum (map success_flag rows)))
                             (sql_cast_real (Some (sql_count_star rows))))
                    (sql_cast_real (Some 100)),
          us_top_products = None,
          us_unique_users = Some 0,
          us_total_errors = Some 0\<rparr>)"

text \<open>
  \<open>INSERT OR REPLACE\<close>: the rows whose primary key equals the new row's are deleted, then
  the new row is inserted. Two \<open>NULL\<close> keys do not conflict.
\<close>

definition insert_or_replace :: "usage_stat list \<Rightarrow> usage_stat \<Rightarrow> usage_stat list" where
  "insert_or_replace tbl s = filter (\<lambda>r. \<not> sql_eq (us_date r) (us_date s)) tbl @ [s]"

definition update_usage_stats_after_query :: "database \<Rightarrow> query_log \<Rightarrow> database" where
  "update_usage_stats_after_query db new =
     db\<lparr>usage_stats := insert_or_replace (usage_stats db) (usage_stats_select (query_logs db) new)\<rparr>"

text \<open>
  \<open>INSERT INTO query_logs\<close>: the row takes the next \<open>AUTOINCREMENT\<close> id, and the
  \<open>AFTER INSERT\<close> trigger then runs on it, inside the same statement.
\<close>

definition new_row :: "database \<Rightarrow> query_log \<Rightarrow> query_log" where
  "new_row db v = v\<lparr>ql_id := Suc (query_logs_seq db)\<rparr>"

definition add_query_log :: "database \<Rightarrow> query_log \<Rightarrow> database" where
  "add_query_log db v =
     db\<lparr>query_logs := query_logs db @ [new_row db v], query_logs_seq := Suc (query_logs_seq db)\<rparr>"

definition insert_query_log :: "database \<Rightarrow> query_log \<Rightarrow> database" where
  "insert_query_log db v = update_usage_stats_after_query (add_query_log db v) (new_row db v)"

text \<open>\<open>INSERT\<close> statements one after the other.\<close>

definition insert_all :: "database \<Rightarrow> query_log list \<Rightarrow> database" where
  "insert_all db vs = fold (\<lambda>v s. insert_query_log s v) vs db"

subsection \<open>Reading the tables\<close>

text \<open>The values of a column that are not \<open>NULL\<close>, and the arithmetic mean of a list.\<close>

definition non_null :: "'a option list \<Rightarrow> 'a list" where
  "non_null vs = List.map_filter (\<lambda>v. v) vs"

definition mean :: "int list \<Rightarrow> rat option" where
  "mean xs = (if xs = [] then None else Some (of_int (sum_list xs) / of_nat (length xs)))"

text \<open>The \<open>usage_stats\<close> rows and the \<open>query_logs\<close> rows of a calendar date.\<close>

definition stats_of_date :: "database \<Rightarrow> nat \<Rightarrow> usage_stat list" where
  "stats_of_date db d = filter (\<lambda>s. us_date s = Some d) (usage_stats db)"

definition logs_of_date :: "database \<Rightarrow> nat \<Rightarrow> query_log list" where
  "logs_of_date db d = filter (\<lambda>r. DATE (ql_timestamp r) = Some d) (query_logs db)"

text \<open>A log row for the examples: its timestamp, success flag and response time.\<close>

definition example_log :: "datetime option \<Rightarrow> bool option \<Rightarrow> int option \<Rightarrow> query_log" where
  "example_log t ok ms =
     \<lparr>ql_id = 0, ql_product = ''allocator'',
      ql_query_text = ''TTS-2298 match code 3 geocoding error'',
      ql_query_length = Some 37, ql_response_time_ms = ms, ql_success = ok,
      ql_error_message = None, ql_timestamp = map_option TimeValue t, ql_ip_address = None,
      ql_user_agent = None, ql_query_hash = None\<rparr>"

subsection \<open>The success rate on the dashboard\<close>

text \<open>
  The dashboard's "Success Rate" card:
  \<^verbatim>\<open>stats.totalQueries > 0 ? Math.round((stats.successfulQueries / stats.totalQueries) * 100) : 0\<close>.
  The two statistics are numbers; \<open>/\<close> and \<open>*\<close> round to binary64, and \<open>Math.round\<close> gives the
  nearest integer, a half upwards.
\<close>

definition Math_round :: "rat \<Rightarrow> int" where
  "Math_round x = \<lfloor>x + 1 / 2\<rfloor>"

definition success_rate_display :: "rat \<Rightarrow> rat \<Rightarrow> int" where
  "success_rate_display totalQueries successfulQueries =
     (if totalQueries > 0
      then Math_round (double_mul (double_div successfulQueries totalQueries) 100) else 0)"

subsection \<open>The insertion as one statement\<close>

text \<open>
  SQLite runs an \<open>AFTER INSERT\<close> trigger inside the statement that fired it, and a
  statement is atomic: when a write of the trigger program fails, the statement aborts
  and the changes it made so far, the inserted row among them, are backed out. The flag
  \<open>stats_write_ok\<close> says whether the storage accepts the trigger's write to
  \<open>usage_stats\<close>; no constraint of the schema can reject it.
\<close>

datatype sql_error = StorageFailure

definition insert_query_log_stmt :: "bool \<Rightarrow> query_log \<Rightarrow> database \<Rightarrow> sql_error + database" where
  "insert_query_log_stmt stats_write_ok v db =
     (let db1 = add_query_log db v
      in if stats_write_ok then Inr (update_usage_stats_after_query db1 (new_row db v))
         else Inl StorageFailure)"

text \<open>The database after a statement: unchanged when the statement aborted.\<close>

definition run_statement :: "(database \<Rightarrow> sql_error + database) \<Rightarrow> database \<Rightarrow> database" where
  "run_statement stmt db = (case stmt db of Inl e \<Rightarrow> db | Inr db' \<Rightarrow> db')"

subsection \<open>Purging a log entry\<close>

text \<open>
  \<open>DELETE FROM query_logs WHERE id = qid\<close>. The flag \<open>foreign_keys\<close> says whether the
  engine enforces foreign keys (always in PostgreSQL, in SQLite under
  \<open>PRAGMA foreign_keys = ON\<close>); when it does, \<open>ON DELETE CASCADE\<close> deletes the
  \<open>feedback\<close> rows that reference the deleted row.
\<close>

definition delete_query_log :: "bool \<Rightarrow> database \<Rightarrow> nat \<Rightarrow> database" where
  "delete_query_log foreign_keys db qid =
     db\<lparr>query_logs := filter (\<lambda>r. ql_id r \<noteq> qid) (query_logs db),
        feedback := (if foreign_keys
                     then filter (\<lambda>f. \<not> sql_eq (fb_query_id f) (Some qid)) (feedback db)
                     else feedback db)\<rparr>"

text \<open>The states that the statements above reach from the empty tables.\<close>

inductive reachable :: "database \<Rightarrow> bool" where
  init: "reachable schema_init"
| insert: "reachable db \<Longrightarrow> reachable (insert_query_log db v)"
| delete: "reachable db \<Longrightarrow> reachable (delete_query_log fk db qid)"

subsection \<open>Rows for the examples\<close>

text \<open>
  A log row whose \<open>timestamp\<close> is \<open>NULL\<close>, which the column admits, and one whose
  \<open>timestamp\<close> is a Unix time, stored as an integer.
\<close>

definition null_timestamp_log :: query_log where
  "null_timestamp_log = example_log None (Some True) (Some 100)"

definition unix_time_log :: query_log where
  "unix_time_log = (example_log None (Some True) (Some 100))\<lparr>ql_timestamp := Some (NotATime ''1700000000'')\<rparr>"

text \<open>A feedback row for the examples: its id and the query it refers to.\<close>

definition example_feedback :: "nat \<Rightarrow> nat option \<Rightarrow> feedback_row" where
  "example_feedback i q = \<lparr>fb_id = i, fb_query_id = q, fb_query_hash = None, fb_helpful = Some True,
     fb_feedback_text = None, fb_timestamp = Some 86400, fb_ip_address = None\<rparr>"

text \<open>A database for the examples: two log rows of day 1 and three feedback rows.\<close>

definition example_db :: database where
  "example_db = schema_init\<lparr>query_logs := [(example_log (Some 86400) (Some True) (Some 100))\<lparr>ql_id := 1\<rparr>,
                    (example_log (Some 90000) (Some False) None)\<lparr>ql_id := 2\<rparr>],
                   query_logs_seq := 2,
                   feedback := [example_feedback 1 (Some 1), example_feedback 2 (Some 2), example_feedback 3 None]\<rparr>"

section \<open>Trigger \<open>update_cache_hit_count\<close>\<close>

text \<open>
  The expression of \<open>UPDATE response_cache SET hit_count = e WHERE id = i\<close>: a constant,
  or \<open>hit_count + 1\<close>, which is \<open>NULL\<close> for \<open>NULL\<close>.
\<close>

datatype hit_count_expr = SetTo "int option" | Increment

definition eval_expr :: "hit_count_expr \<Rightarrow> cache_row \<Rightarrow> int option" where
  "eval_expr e r = (case e of SetTo v \<Rightarrow> v | Increment \<Rightarrow> map_option (\<lambda>n. n + 1) (rc_hit_count r))"

text \<open>\<open>a > b\<close> in a \<open>WHEN\<close> clause: true only for two values that are not \<open>NULL\<close>.\<close>

definition sql_gt :: "int option \<Rightarrow> int option \<Rightarrow> bool" where
  "sql_gt a b = (case (a, b) of (Some x, Some y) \<Rightarrow> x > y | _ \<Rightarrow> False)"

text \<open>The trigger's body: \<open>UPDATE response_cache SET hit_count = NEW.hit_count WHERE id = NEW.id\<close>.\<close>

definition set_hit_count :: "cache_row list \<Rightarrow> nat \<Rightarrow> int option \<Rightarrow> cache_row list" where
  "set_hit_count tbl i n = map (\<lambda>r. if rc_id r = i then r\<lparr>rc_hit_count := n\<rparr> else r) tbl"

text \<open>
  The trigger, for the row \<open>old\<close> updated to \<open>new\<close>: it runs its body
  \<open>WHEN NEW.hit_count > OLD.hit_count\<close>, and not again for the body's own update.
\<close>

definition update_cache_hit_count :: "cache_row list \<Rightarrow> cache_row \<Rightarrow> cache_row \<Rightarrow> cache_row list" where
  "update_cache_hit_count tbl old new =
     (if sql_gt (rc_hit_count new) (rc_hit_count old)
      then set_hit_count tbl (rc_id new) (rc_hit_count new) else tbl)"

text \<open>
  The \<open>UPDATE\<close> statement with its trigger; \<open>id\<close> is the primary key, so the statement
  updates the one row of that id, if there is one.
\<close>

definition update_hit_count :: "cache_row list \<Rightarrow> nat \<Rightarrow> hit_count_expr \<Rightarrow> cache_row list" where
  "update_hit_count tbl i e =
     (case find (\<lambda>r. rc_id r = i) tbl of
        None \<Rightarrow> tbl
      | Some old \<Rightarrow>
          (let new = old\<lparr>rc_hit_count := eval_expr e old\<rparr>
           in update_cache_hit_count (map (\<lambda>r. if rc_id r = i then new else r) tbl) old new))"

section \<open>The Response Cache\<close>

text \<open>
  The operations \<open>lookup\<close> and \<open>store\<close> of the Response Cache are not among the sources,
  which hold the table and its trigger; they are modelled from the spec (4.2). The key
  of a row is a hash of the product and the normalized query; the hash is a parameter.
\<close>

type_synonym hash_fn = "string \<Rightarrow> string \<Rightarrow> string"

text \<open>
  Modelled from the spec: the expiry policy of the Response Cache, whose code is not among
  the sources. A row is invalid once \<open>now >= expires_at\<close>; a row whose \<open>expires_at\<close> is
  \<open>NULL\<close> never is.
\<close>

definition expired :: "datetime \<Rightarrow> cache_row \<Rightarrow> bool" where
  "expired now r = (case rc_expires_at r of None \<Rightarrow> False | Some e \<Rightarrow> e \<le> now)"

text \<open>
  Modelled from the spec: \<open>lookup\<close> of the Response Cache, whose code is not among the
  sources. A lookup that finds a valid row for the key is a hit: it returns the row and
  increments its \<open>hit_count\<close> in one \<open>UPDATE\<close>, on which the trigger of the table runs. A
  lookup that finds no row, or an invalid one, is a miss and changes nothing.
\<close>

definition cache_lookup ::
  "hash_fn \<Rightarrow> datetime \<Rightarrow> database \<Rightarrow> string \<Rightarrow> string \<Rightarrow> cache_row option \<times> database" where
  "cache_lookup h now db product q =
     (case find (\<lambda>r. rc_query_hash r = h product q) (response_cache db) of
        None \<Rightarrow> (None, db)
      | Some r \<Rightarrow>
          if expired now r then (None, db)
          else (Some r, db\<lparr>response_cache := update_hit_count (response_cache db) (rc_id r) Increment\<rparr>))"

text \<open>
  Modelled from the spec: \<open>store\<close> of the Response Cache, whose code is not among the
  sources. A store replaces the row of the key, if any, by a new row with the next id,
  no hit yet, created now and expiring after the time to live.
\<close>

definition cache_store ::
  "hash_fn \<Rightarrow> datetime \<Rightarrow> database \<Rightarrow> string \<Rightarrow> string \<Rightarrow> string \<Rightarrow> rat option \<Rightarrow> nat \<Rightarrow> database" where
  "cache_store h now db product q answer conf ttl =
     db\<lparr>response_cache :=
          filter (\<lambda>r. rc_query_hash r \<noteq> h product q) (response_cache db) @
          [\<lparr>rc_id = Suc (response_cache_seq db), rc_query_hash = h product q,
            rc_product = product, rc_response_text = answer, rc_confidence = conf,
            rc_created_at = Some now, rc_expires_at = Some (now + ttl),
            rc_hit_count = Some 0\<rparr>],
        response_cache_seq := Suc (response_cache_seq db)\<rparr>"

text \<open>The operations of the cache, and a run of them.\<close>

datatype cache_op =
    Lookup datetime string string
  | Store datetime string string string "rat option" nat

fun apply_op :: "hash_fn \<Rightarrow> cache_op \<Rightarrow> database \<Rightarrow> database" where
  "apply_op h (Lookup now product q) db = snd (cache_lookup h now db product q)"
| "apply_op h (Store now product q answer conf ttl) db = cache_store h now db product q answer conf ttl"

definition run_ops :: "hash_fn \<Rightarrow> cache_op list \<Rightarrow> database \<Rightarrow> database" where
  "run_ops h ops db = fold (apply_op h) ops db"

text \<open>
  The constraints of the table: \<open>id\<close> is the primary key, below the \<open>AUTOINCREMENT\<close>
  counter, and \<open>query_hash\<close> is unique.
\<close>

definition cache_wf :: "database \<Rightarrow> bool" where
  "cache_wf db =
     (distinct (map rc_id (response_cache db))
      \<and> distinct (map rc_query_hash (response_cache db))
      \<and> list_all (\<lambda>r. rc_id r \<le> response_cache_seq db) (response_cache db))"

text \<open>A hit count has not decreased: \<open>NULL\<close> is below every count.\<close>

definition not_decreased :: "int option \<Rightarrow> int option \<Rightarrow> bool" where
  "not_decreased a b = (case a of None \<Rightarrow> True | Some x \<Rightarrow> (case b of None \<Rightarrow> False | Some y \<Rightarrow> x \<le> y))"



text \<open>A hash for the examples, and a cache holding one row, stored at time 1000 for an hour.\<close>

definition example_hash :: hash_fn where
  "example_hash product q = product @ '':'' @ q"

definition example_cache :: database where
  "example_cache = cache_store example_hash 1000 schema_init ''allocator'' ''match code 3''
     ''Check the geocoder'' None 3600"



section \<open>The Admin Auth Gate\<close>

text \<open>Table \<open>admin_users\<close>.\<close>

record admin_user =
  au_id :: nat
  au_username :: string
  au_password_hash :: string
  au_email :: "string option"
  au_is_active :: "bool option"
  au_created_at :: "datetime option"
  au_last_login :: "datetime option"
  au_login_attempts :: "int option"
  au_locked_until :: "datetime option"

text \<open>
  Modelled from the spec: the configuration of the Admin Auth Gate (4.3), whose code is not
  among the sources; the sources hold the table \<open>admin_users\<close> and the login form. The
  gate is configured with the threshold \<open>N\<close>, the lockout duration and the password
  check (hash in, boolean out).
\<close>

record gate_config =
  threshold :: int
  lockout_duration :: nat
  verify :: "string \<Rightarrow> string \<Rightarrow> bool"

text \<open>Modelled from the spec: the two ways in which a login fails (4.3, 7).\<close>

datatype login_error = InvalidCredentials | AccountLocked

text \<open>
  Modelled from the spec: the state of an account as the gate reads it. The count of
  consecutive failures is \<open>login_attempts\<close>, 0 when \<open>NULL\<close>; the account is locked before
  \<open>locked_until\<close>; once \<open>locked_until\<close> has elapsed the gate resets \<open>login_attempts\<close> to 0.
\<close>

definition attempts_of :: "admin_user \<Rightarrow> int" where
  "attempts_of u = (case au_login_attempts u of None \<Rightarrow> 0 | Some a \<Rightarrow> a)"

definition locked :: "datetime \<Rightarrow> admin_user \<Rightarrow> bool" where
  "locked now u = (case au_locked_until u of None \<Rightarrow> False | Some t \<Rightarrow> now < t)"

definition unlock_elapsed :: "admin_user \<Rightarrow> admin_user" where
  "unlock_elapsed u =
     (if au_locked_until u = None then u
      else u\<lparr>au_login_attempts := Some 0, au_locked_until := None\<rparr>)"

text \<open>
  Modelled from the spec: \<open>login\<close> of the Admin Auth Gate, for the account of the
  username; the code is not among the sources. A login while locked fails with
  \<open>AccountLocked\<close> whatever the password, and changes nothing. Otherwise a matching
  password succeeds, resets \<open>login_attempts\<close> and records \<open>last_login\<close>; a mismatch fails
  with \<open>InvalidCredentials\<close> and counts one more consecutive failure, and the failure
  that reaches the threshold locks the account until \<open>now + lockout_duration\<close>.
\<close>

definition login :: "gate_config \<Rightarrow> datetime \<Rightarrow> string \<Rightarrow> admin_user \<Rightarrow> (login_error + unit) \<times> admin_user" where
  "login cfg now password u =
     (if locked now u then (Inl AccountLocked, u)
      else
        (let u1 = unlock_elapsed u in
         if verify cfg password (au_password_hash u1)
         then (Inr (), u1\<lparr>au_login_attempts := Some 0, au_last_login := Some now\<rparr>)
         else
           (let n = attempts_of u1 + 1 in
            if threshold cfg \<le> n
            then (Inl InvalidCredentials,
                  u1\<lparr>au_login_attempts := Some n, au_locked_until := Some (now + lockout_duration cfg)\<rparr>)
            else (Inl InvalidCredentials, u1\<lparr>au_login_attempts := Some n\<rparr>))))"

text \<open>Login attempts one after the other, each at its time with its password.\<close>

fun logins :: "gate_config \<Rightarrow> (datetime \<times> string) list \<Rightarrow> admin_user \<Rightarrow> admin_user" where
  "logins cfg [] u = u"
| "logins cfg ((now, password) # rest) u = logins cfg rest (snd (login cfg now password u))"

text \<open>An attempt fails on the password: its password does not match the stored hash.\<close>

definition wrong :: "gate_config \<Rightarrow> admin_user \<Rightarrow> (datetime \<times> string) \<Rightarrow> bool" where
  "wrong cfg u a = (\<not> verify cfg (snd a) (au_password_hash u))"

text \<open>
  A gate for the examples, locking for 900 seconds at the third failure, and the seeded
  admin account with an abbreviated hash.
\<close>

definition example_gate :: gate_config where
  "example_gate = \<lparr>threshold = 3, lockout_duration = 900,
     verify = (\<lambda>password hash. hash = ''$2b$12$'' @ password)\<rparr>"

definition example_admin :: admin_user where
  "example_admin = \<lparr>au_id = 1, au_username = ''admin'', au_password_hash = ''$2b$12$admin123'',
     au_email = Some ''admin@stratus.com'', au_is_active = Some True, au_created_at = Some 0,
     au_last_login = None, au_login_attempts = Some 0, au_locked_until = None\<rparr>"

section \<open>JavaScript values\<close>

text \<open>
  A JavaScript string is a sequence of UTF-16 code units, here natural numbers; \<open>str\<close>
  writes one from an ASCII literal. A value read from a JSON body is \<open>null\<close>, a boolean, a
  number, a string, or an array or object; a field that the body lacks is \<open>undefined\<close>
  (\<open>None\<close>). In a condition, \<open>undefined\<close>, \<open>null\<close>, \<open>false\<close>, \<open>0\<close> and the empty string count
  as false and every other value as true.
\<close>

type_synonym jsstring = "nat list"

definition str :: "string \<Rightarrow> jsstring" where
  "str s = map of_char s"

datatype json = JNull | JBool bool | JNumber rat | JString jsstring | JStructured

fun truthy :: "json option \<Rightarrow> bool" where
  "truthy None = False"
| "truthy (Some JNull) = False"
| "truthy (Some (JBool b)) = b"
| "truthy (Some (JNumber n)) = (n \<noteq> 0)"
| "truthy (Some (JString s)) = (s \<noteq> [])"
| "truthy (Some JStructured) = True"

section \<open>The API key in the admin dashboard\<close>

text \<open>Table \<open>api_config\<close>, and the row that the schema file inserts for the API key.\<close>

record config_entry =
  ac_id :: nat
  ac_config_key :: string
  ac_config_value :: "string option"
  ac_description :: "string option"
  ac_is_encrypted :: "bool option"
  ac_updated_at :: "datetime option"
  ac_updated_by :: "string option"

definition claude_api_key_row :: "datetime \<Rightarrow> config_entry" where
  "claude_api_key_row now =
     \<lparr>ac_id = 1, ac_config_key = ''claude_api_key'', ac_config_value = Some '''',
      ac_description = Some ''Claude API key for AI integration'', ac_is_encrypted = Some False,
      ac_updated_at = Some now, ac_updated_by = None\<rparr>"

text \<open>
  Modelled from the spec: the handler of \<open>POST /api/admin/config\<close>, whose code is not among
  the sources; the sources hold the table and the dashboard that calls it. It stores the
  key in the row \<open>claude_api_key\<close>.
\<close>

definition post_config :: "datetime \<Rightarrow> string \<Rightarrow> config_entry list \<Rightarrow> string \<Rightarrow> config_entry list" where
  "post_config now admin tbl key =
     map (\<lambda>c. if ac_config_key c = ''claude_api_key''
               then c\<lparr>ac_config_value := Some key, ac_updated_at := Some now, ac_updated_by := Some admin\<rparr>
               else c) tbl"

text \<open>
  Modelled from the spec: the handler of \<open>GET /api/admin/config\<close>, whose code is not among
  the sources. It returns the masked presence of the key: the field \<open>claude_api_key\<close> of
  its body says whether a key is stored, and the body holds nothing else of the row.
\<close>

definition key_is_set :: "config_entry list \<Rightarrow> bool" where
  "key_is_set tbl =
     (case find (\<lambda>c. ac_config_key c = ''claude_api_key'') tbl of
        None \<Rightarrow> False
      | Some c \<Rightarrow> (case ac_config_value c of None \<Rightarrow> False | Some v \<Rightarrow> v \<noteq> []))"

definition get_config :: "config_entry list \<Rightarrow> json option" where
  "get_config tbl = Some (JBool (key_is_set tbl))"

text \<open>
  The dashboard's \<open>loadConfiguration\<close>. The \<open>fetch\<close> fails, or answers with a status and a
  body, of which the dashboard reads the field \<open>claude_api_key\<close>. For a status that is
  \<open>ok\<close> it sets its state \<open>apiKey\<close> to sixteen bullets (U+2022) or to the empty string;
  otherwise, and on a failure, which it catches, the state stays.
\<close>

datatype fetch_result = Failed | Response bool "json option"

definition key_mask :: jsstring where
  "key_mask = replicate 16 8226"

definition loadConfiguration :: "fetch_result \<Rightarrow> jsstring \<Rightarrow> jsstring" where
  "loadConfiguration res apiKey =
     (case res of
        Failed \<Rightarrow> apiKey
      | Response ok claude_api_key \<Rightarrow>
          if ok then (if truthy claude_api_key then key_mask else []) else apiKey)"

section \<open>The response formatter of the analyzer page\<close>

text \<open>
  \<open>String.prototype.trim\<close> removes, at both ends, the code units of white space and of
  line terminators.
\<close>

definition js_whitespace :: "nat \<Rightarrow> bool" where
  "js_whitespace c =
     (c \<in> set [9, 10, 11, 12, 13, 32, 160, 5760, 8232, 8233, 8239, 8287, 12288, 65279]
      \<or> (8192 \<le> c \<and> c \<le> 8202))"

definition trim :: "jsstring \<Rightarrow> jsstring" where
  "trim s = rev (dropWhile js_whitespace (rev (dropWhile js_whitespace s)))"

text \<open>
  \<open>String.prototype.split\<close> with a separator: the pieces between the occurrences of the
  separator, found from left to right without overlap; \<open>cur\<close> holds, reversed, the piece
  being read. With the empty separator the pieces are the code units.
\<close>

fun split_from :: "jsstring \<Rightarrow> jsstring \<Rightarrow> jsstring \<Rightarrow> jsstring list" where
  "split_from sep cur [] = [rev cur]"
| "split_from sep cur (c # s) =
     (if sep \<noteq> [] \<and> take (length sep) (c # s) = sep
      then rev cur # split_from sep [] (drop (length sep - 1) s)
      else split_from sep (c # cur) s)"

definition js_split :: "jsstring \<Rightarrow> jsstring \<Rightarrow> jsstring list" where
  "js_split sep s = (if sep = [] then map (\<lambda>c. [c]) s else split_from sep [] s)"

text \<open>\<open>Array.prototype.join\<close> and \<open>String.prototype.includes\<close>.\<close>

fun js_join :: "jsstring \<Rightarrow> jsstring list \<Rightarrow> jsstring" where
  "js_join sep [] = []"
| "js_join sep [x] = x"
| "js_join sep (x # y # ys) = x @ sep @ js_join sep (y # ys)"

fun js_includes :: "jsstring \<Rightarrow> jsstring \<Rightarrow> bool" where
  "js_includes sub [] = (sub = [])"
| "js_includes sub (c # s) = (take (length sub) (c # s) = sub \<or> js_includes sub s)"

text \<open>The separators: \<open>'##'\<close> and the line feed.\<close>

definition hashes :: jsstring where
  "hashes = [35, 35]"

definition newline :: jsstring where
  "newline = [10]"

text \<open>
  \<open>formatResponse\<close> computes, for a section, its lines, its title and its content, the
  same way in both versions of the page. Reading \<open>lines[0]\<close> of an empty array would give
  \<open>undefined\<close>, and calling \<open>trim\<close> on it would throw a \<open>TypeError\<close>.
\<close>

datatype js_error = TypeError

definition section_parts :: "jsstring \<Rightarrow> js_error + jsstring \<times> jsstring" where
  "section_parts section =
     (let lines = js_split newline (trim section)
      in case lines of
           [] \<Rightarrow> Inl TypeError
         | first # rest \<Rightarrow> Inr (trim first, trim (js_join newline rest)))"

text \<open>
  \<open>getSectionIcon\<close>: the first keyword that the title, in lower case, includes decides
  the icon. The second keyword is \<open>'solutions'\<close> in one version of the page and
  \<open>'immediate'\<close> in the other; \<open>toLowerCase\<close> is a parameter.
\<close>

datatype icon = Target | Wrench | FileText | TestTube | History | Bug

definition getSectionIcon :: "(jsstring \<Rightarrow> jsstring) \<Rightarrow> jsstring \<Rightarrow> jsstring \<Rightarrow> icon" where
  "getSectionIcon toLowerCase second title =
     (if js_includes (str ''root cause'') (toLowerCase title) then Target
      else if js_includes second (toLowerCase title) then Wrench
      else if js_includes (str ''files'') (toLowerCase title) then FileText
      else if js_includes (str ''testing'') (toLowerCase title) then TestTube
      else if js_includes (str ''historical'') (toLowerCase title) then History
      else Bug)"

text \<open>
  The element rendered for a section: its key, which is its index, its icon, its title
  and its content. The first version of the page renders the content as one block, the
  second as one paragraph for each of its lines, trimmed.
\<close>

record section_element =
  el_key :: nat
  el_icon :: icon
  el_title :: jsstring
  el_content :: jsstring
  el_paragraphs :: "jsstring list"

definition render_section ::
  "(jsstring \<Rightarrow> jsstring) \<Rightarrow> jsstring \<Rightarrow> bool \<Rightarrow> nat \<times> jsstring \<Rightarrow> js_error + section_element" where
  "render_section toLowerCase second by_line p =
     (case section_parts (snd p) of
        Inl e \<Rightarrow> Inl e
      | Inr (title, content) \<Rightarrow>
          Inr \<lparr>el_key = fst p, el_icon = getSectionIcon toLowerCase second title,
               el_title = title, el_content = content,
               el_paragraphs = (if by_line then map trim (js_split newline content) else [content])\<rparr>)"

text \<open>\<open>Array.prototype.map\<close> with a callback that may throw: the first error ends it.\<close>

fun collect :: "('e + 'a) list \<Rightarrow> 'e + 'a list" where
  "collect [] = Inr []"
| "collect (x # xs) =
     (case x of
        Inl e \<Rightarrow> Inl e
      | Inr v \<Rightarrow> (case collect xs of Inl e \<Rightarrow> Inl e | Inr vs \<Rightarrow> Inr (v # vs)))"

text \<open>
  \<open>formatResponse\<close> returns the empty string for a text that is \<open>null\<close>, \<open>undefined\<close> or
  empty, and otherwise the array of the elements of its sections.
\<close>

datatype rendered = EmptyString | Elements "section_element list"

definition format_with ::
  "(jsstring \<Rightarrow> jsstring) \<Rightarrow> jsstring \<Rightarrow> bool \<Rightarrow> jsstring option \<Rightarrow> js_error + rendered" where
  "format_with toLowerCase second by_line text =
     (case text of
        None \<Rightarrow> Inr EmptyString
      | Some t \<Rightarrow>
          if t = [] then Inr EmptyString
          else
            (let sections = filter (\<lambda>section. trim section \<noteq> []) (js_split hashes t)
             in case collect (map (render_section toLowerCase second by_line) (enumerate 0 sections)) of
                  Inl e \<Rightarrow> Inl e
                | Inr elements \<Rightarrow> Inr (Elements elements)))"

definition formatResponse :: "(jsstring \<Rightarrow> jsstring) \<Rightarrow> jsstring option \<Rightarrow> js_error + rendered" where
  "formatResponse toLowerCase text = format_with toLowerCase (str ''solutions'') False text"

definition formatResponse_by_line :: "(jsstring \<Rightarrow> jsstring) \<Rightarrow> jsstring option \<Rightarrow> js_error + rendered" where
  "formatResponse_by_line toLowerCase text = format_with toLowerCase (str ''immediate'') True text"

text \<open>
  The first line of a string and what follows its first line feed: the lines after the
  first, joined by line feeds.
\<close>

definition first_line :: "jsstring \<Rightarrow> jsstring" where
  "first_line s = takeWhile (\<lambda>c. c \<noteq> 10) s"

definition after_first_line :: "jsstring \<Rightarrow> jsstring" where
  "after_first_line s = drop (Suc (length (first_line s))) s"

text \<open>The sections of a text: its pieces between \<open>'##'\<close> that are not blank.\<close>

definition sections_of :: "jsstring \<Rightarrow> jsstring list" where
  "sections_of t = filter (\<lambda>section. trim section \<noteq> []) (js_split hashes t)"

text \<open>
  What both versions of \<open>formatResponse\<close> are shown to do, for a function \<open>f\<close> from
  the text to the result: the empty string for no text and for the empty text; for
  every other text the elements of its sections, in order and keyed by their index, the
  title of each the first line of the trimmed section, trimmed, and its content what
  follows that line, trimmed; and so one element for a text that is not blank and
  includes no \<open>'##'\<close>.
\<close>

definition renders_sections :: "(jsstring option \<Rightarrow> js_error + rendered) \<Rightarrow> bool" where
  "renders_sections f =
     (f None = Inr EmptyString
      \<and> f (Some []) = Inr EmptyString
      \<and> (\<forall>t. t \<noteq> [] \<longrightarrow>
            (\<exists>els. f (Some t) = Inr (Elements els)
               \<and> map el_key els = [0..<length (sections_of t)]
               \<and> map el_title els = map (\<lambda>s. trim (first_line (trim s))) (sections_of t)
               \<and> map el_content els = map (\<lambda>s. trim (after_first_line (trim s))) (sections_of t)))
      \<and> (\<forall>t. \<not> js_includes hashes t \<and> trim t \<noteq> [] \<longrightarrow>
            (\<exists>el. f (Some t) = Inr (Elements [el])
               \<and> el_title el = trim (first_line (trim t))
               \<and> el_content el = trim (after_first_line (trim t)))))"

text \<open>A text for the examples: a blank line, then a title and a body.\<close>

definition leading_blank_text :: jsstring where
  "leading_blank_text = 10 # str ''Title'' @ [10] @ str ''Body''"

section \<open>Properties of the floating-point rounding\<close>

lemma bit_length_bounds:
  "0 < n \<Longrightarrow> 2 ^ (bit_length n - 1) \<le> n \<and> n < 2 ^ bit_length n"
proof (induction n rule: bit_length.induct)
  case (1 n)
  show ?case
  proof (cases "n div 2 = 0")
    case True
    with "1.prems" have "n = 1"
      by (simp add: div_eq_0_iff) 
    then show ?thesis
      by (simp add: bit_length.simps)
  next
    case False
    then have ih: "2 ^ (bit_length (n div 2) - 1) \<le> n div 2 \<and> n div 2 < 2 ^ bit_length (n div 2)"
      using "1.IH" "1.prems" by simp
    have pos: "0 < bit_length (n div 2)"
      using False by (simp add: bit_length.simps [of "n div 2"])
    have bl: "bit_length n = Suc (bit_length (n div 2))"
      using "1.prems" by (simp add: bit_length.simps [of n])
    from pos obtain k where k: "bit_length (n div 2) = Suc k"
      by (cases "bit_length (n div 2)") auto
    from ih k have "2 ^ k \<le> n div 2" and "n div 2 < 2 ^ Suc k"
      by simp_all
    then have "2 * 2 ^ k \<le> n" and "n < 2 * 2 ^ Suc k"
      by linarith+
    then show ?thesis
      by (simp add: bl k)
  qed
qed

lemma pow2_pos: "0 < pow2 e"
  by (simp add: pow2_def)

lemma pow2_le: "pow2 (ilog2 a) \<le> a" if "0 < a" for a
proof (cases "1 \<le> a")
  case True
  define n where "n = nat \<lfloor>a\<rfloor>"
  have n: "0 < n"
    using True by (simp add: n_def)
  then have b: "0 < bit_length n"
    by (simp add: bit_length.simps [of n])
  have "(2::nat) ^ (bit_length n - 1) \<le> n"
    using bit_length_bounds [OF n] by simp
  then have "(2::rat) ^ (bit_length n - 1) \<le> of_nat n"
    by (metis of_nat_le_iff of_nat_numeral of_nat_power)
  also have "\<dots> \<le> a"
    using True by (simp add: n_def)
  finally have "(2::rat) ^ (bit_length n - 1) \<le> a" .
  moreover have "ilog2 a = int (bit_length n - 1)"
    using True b by (simp add: ilog2_def n_def)
  ultimately show ?thesis
    by (simp add: pow2_def)
next
  case False
  define y where "y = 1 / a"
  define n where "n = nat \<lfloor>y\<rfloor>"
  define b where "b = int (bit_length n)"
  have y1: "1 < y"
    using False that by (simp add: y_def)
  have n: "0 < n"
    using y1 by (simp add: n_def)
  have il: "ilog2 a = (if y = pow2 (b - 1) then - (b - 1) else - b)"
    using False by (simp add: ilog2_def y_def n_def b_def Let_def)
  show ?thesis
  proof (cases "y = pow2 (b - 1)")
    case True
    have b1: "0 \<le> b - 1"
      using n by (simp add: b_def bit_length.simps [of n])
    have "ilog2 a = - (b - 1)"
      using il True by simp
    moreover have "a = 1 / pow2 (b - 1)"
    proof -
      have "1 / (1 / a) = 1 / pow2 (b - 1)"
        using True by (simp only: y_def)
      then show ?thesis by simp
    qed
    ultimately show ?thesis
      using b1 by (simp add: pow2_def)
  next
    case neq: False
    have il: "ilog2 a = - b"
      using il neq by simp
    have "n < 2 ^ bit_length n"
      using bit_length_bounds [OF n] by simp
    then have "Suc n \<le> 2 ^ bit_length n"
      by simp
    then have "(of_nat (Suc n) :: rat) \<le> 2 ^ bit_length n"
      by (metis of_nat_le_iff of_nat_numeral of_nat_power)
    moreover have "y < of_nat (Suc n)"
      using y1 by (simp add: n_def) linarith
    ultimately have "y < 2 ^ bit_length n"
      by linarith
    then have "1 / 2 ^ bit_length n < 1 / y"
      using y1 by (simp add: frac_less2)
    moreover have "1 / y = a"
      by (simp add: y_def)
    moreover have "pow2 (- b) = 1 / 2 ^ bit_length n"
      by (simp add: pow2_def b_def)
    ultimately show ?thesis
      using il by simp
  qed
qed

lemma round_half_even_pos: "1 \<le> y \<Longrightarrow> 1 \<le> round_half_even y"
proof -
  assume "1 \<le> y"
  then have "1 \<le> \<lfloor>y\<rfloor>" by simp
  then show ?thesis
    by (simp add: round_half_even_def Let_def)
qed

lemma pow2_mono: "e \<le> e' \<Longrightarrow> pow2 e \<le> pow2 e'"
proof -
  assume le: "e \<le> e'"
  have p: "pow2 e = 2 powi e" for e
    by (simp add: pow2_def power_int_def power_one_over)
  show ?thesis
    unfolding p using le by (intro power_int_increasing) simp_all
qed

lemma round_double_eq_0_iff: "round_double x = 0 \<longleftrightarrow> x = 0"
proof (cases "x = 0")
  case True
  then show ?thesis by (simp add: round_double_def)
next
  case False
  define q where "q = ilog2 \<bar>x\<bar> - 52"
  have a: "0 < \<bar>x\<bar>"
    using False by simp
  have "pow2 q \<le> pow2 (ilog2 \<bar>x\<bar>)"
    unfolding q_def by (rule pow2_mono) simp
  also have "\<dots> \<le> \<bar>x\<bar>"
    using a by (rule pow2_le)
  finally have "1 \<le> \<bar>x\<bar> / pow2 q"
    using pow2_pos [of q] by (simp add: le_divide_eq)
  then have "1 \<le> round_half_even (\<bar>x\<bar> / pow2 q)"
    by (rule round_half_even_pos)
  then have "of_int (round_half_even (\<bar>x\<bar> / pow2 q)) \<noteq> (0::rat)"
    by simp
  moreover have "pow2 q \<noteq> 0"
    using pow2_pos [of q] by simp
  moreover have "sgn x \<noteq> 0"
    using False by (simp add: sgn_eq_0_iff)
  ultimately show ?thesis
    using False by (simp add: round_double_def q_def [symmetric] Let_def)
qed

lemma double_of_int_eq_0_iff: "double_of_int i = 0 \<longleftrightarrow> i = 0"
  by (simp add: double_of_int_def round_double_eq_0_iff)

lemma double_percent_example:
  "double_mul (double_div (double_of_int 2) (double_of_int 3)) (double_of_int 100) =
     2345624805922133 / 35184372088832"
  by code_simp

lemma success_rate_display_example: "success_rate_display 40 23 = 57"
  by code_simp

section \<open>Properties of the usage aggregation\<close>

lemma non_null_simps [simp]:
  "non_null [] = []"
  "non_null (None # vs) = non_null vs"
  "non_null (Some x # vs) = x # non_null vs"
  by (simp_all add: non_null_def List.map_filter_simps)

lemma fold_count: "fold (\<lambda>_ n. n + 1) rows (k::int) = k + int (length rows)"
  by (induction rows arbitrary: k) simp_all

lemma sql_count_star_length: "sql_count_star rows = int (length rows)"
  by (simp add: sql_count_star_def fold_count)

lemma sum_step_simps:
  "sum_step None acc = acc"
  "sum_step (Some x) None = Some x"
  "sum_step (Some x) (Some s) = Some (s + x)"
  by (simp_all add: sum_step_def)

lemma avg_step_simps:
  "avg_step None acc = acc"
  "avg_step (Some x) acc = (fst acc + x, Suc (snd acc))"
  by (simp_all add: avg_step_def)

lemma fold_sum_step:
  "fold sum_step vs acc =
     (if non_null vs = [] then acc
      else Some (sum_list (non_null vs) + (case acc of None \<Rightarrow> 0 | Some s \<Rightarrow> s)))"
proof (induction vs arbitrary: acc)
  case Nil
  show ?case by simp
next
  case (Cons v vs)
  show ?case
  proof (cases v)
    case None
    then show ?thesis by (simp add: Cons.IH sum_step_simps)
  next
    case (Some x)
    then show ?thesis by (cases acc) (simp_all add: Cons.IH sum_step_simps)
  qed
qed

lemma sql_sum_non_null:
  "sql_sum vs = (if non_null vs = [] then None else Some (sum_list (non_null vs)))"
  by (simp add: sql_sum_def fold_sum_step)

lemma non_null_success_flag:
  "non_null (map success_flag rows) = map (\<lambda>r. if ql_success r = Some True then 1 else 0) rows"
  by (induction rows) (simp_all add: success_flag_def)

lemma sum_list_indicator:
  "sum_list (map (\<lambda>r. if P r then 1 else 0) rows) = int (length (filter P rows))"
  by (induction rows) simp_all

lemma sql_sum_success_flag:
  "sql_sum (map success_flag rows) =
     (if rows = [] then None else Some (int (length (filter (\<lambda>r. ql_success r = Some True) rows))))"
  by (simp add: sql_sum_non_null non_null_success_flag sum_list_indicator)

lemma fold_avg_step:
  "fold avg_step vs acc = (fst acc + sum_list (non_null vs), snd acc + length (non_null vs))"
proof (induction vs arbitrary: acc)
  case Nil
  show ?case by simp
next
  case (Cons v vs)
  show ?case by (cases v) (simp_all add: Cons.IH avg_step_simps)
qed

lemma sql_avg_mean:
  "sql_avg vs = (if non_null vs = [] then None
                 else Some (of_int (sum_list (non_null vs)) / of_nat (length (non_null vs))))"
  by (simp add: sql_avg_def fold_avg_step avg_final_def)

lemma rows_of_date_Some:
  "rows_of_date logs (Some d) = filter (\<lambda>r. DATE (ql_timestamp r) = Some d) logs"
  unfolding rows_of_date_def
  by (rule filter_cong) (auto simp: sql_eq_def split: option.splits)

lemma rows_of_date_None: "rows_of_date logs None = []"
  by (simp add: rows_of_date_def sql_eq_def split: option.splits)

lemma query_logs_insert:
  "query_logs (insert_query_log db v) = query_logs db @ [new_row db v]"
  by (simp add: insert_query_log_def update_usage_stats_after_query_def add_query_log_def)

lemma usage_stats_insert:
  "usage_stats (insert_query_log db v) =
     insert_or_replace (usage_stats db) (usage_stats_select (query_logs db @ [new_row db v]) (new_row db v))"
  by (simp add: insert_query_log_def update_usage_stats_after_query_def add_query_log_def)

lemma timestamp_new_row [simp]: "ql_timestamp (new_row db v) = ql_timestamp v"
  by (simp add: new_row_def)

lemma us_date_select [simp]: "us_date (usage_stats_select logs new) = DATE (ql_timestamp new)"
  by (simp add: usage_stats_select_def Let_def)

lemma sql_eq_simps:
  "sql_eq a (Some d) = (a = Some d)"
  "sql_eq a None = False"
  by (simp_all add: sql_eq_def split: option.splits)

lemma stats_of_date_insert_or_replace:
  "filter (\<lambda>r. us_date r = Some d) (insert_or_replace tbl s) =
     (if us_date s = Some d then [s] else filter (\<lambda>r. us_date r = Some d) tbl)"
proof (cases "us_date s")
  case None
  then show ?thesis by (simp add: insert_or_replace_def sql_eq_simps)
next
  case (Some e)
  have "filter (\<lambda>r. us_date r = Some d) (filter (\<lambda>r. us_date r \<noteq> Some e) tbl) =
        (if e = d then [] else filter (\<lambda>r. us_date r = Some d) tbl)"
    by (auto simp: filter_empty_conv intro: filter_cong)
  with Some show ?thesis by (simp add: insert_or_replace_def sql_eq_simps)
qed

lemma insert_all_snoc: "insert_all db (vs @ [v]) = insert_query_log (insert_all db vs) v"
  by (simp add: insert_all_def)

lemma select_on_date:
  assumes "DATE (ql_timestamp r) = Some d"
  shows "usage_stats_select logs r =
     \<lparr>us_date = Some d,
      us_total_queries = Some (int (length (filter (\<lambda>r. DATE (ql_timestamp r) = Some d) logs))),
      us_successful_queries = sql_sum (map success_flag (filter (\<lambda>r. DATE (ql_timestamp r) = Some d) logs)),
      us_avg_response_time = mean (non_null (map ql_response_time_ms (filter (\<lambda>r. DATE (ql_timestamp r) = Some d) logs))),
      us_success_rate = sql_mul (sql_div (sql_cast_real (sql_sum (map success_flag (filter (\<lambda>r. DATE (ql_timestamp r) = Some d) logs))))
          (sql_cast_real (Some (int (length (filter (\<lambda>r. DATE (ql_timestamp r) = Some d) logs))))))
          (sql_cast_real (Some 100)),
      us_top_products = None, us_unique_users = Some 0, us_total_errors = Some 0\<rparr>"
  using assms
  by (simp add: usage_stats_select_def Let_def rows_of_date_Some sql_count_star_length sql_avg_mean mean_def)

lemma select_same_date:
  "DATE (ql_timestamp r) = DATE (ql_timestamp r') \<Longrightarrow> usage_stats_select logs r = usage_stats_select logs r'"
  by (simp add: usage_stats_select_def)

lemma insert_or_replace_again:
  "us_date s = Some d \<Longrightarrow> insert_or_replace (insert_or_replace tbl s) s = insert_or_replace tbl s"
  by (auto simp: insert_or_replace_def sql_eq_simps intro: filter_cong)

lemma reaggregate_same:
  assumes "DATE (ql_timestamp r) = Some d" and "DATE (ql_timestamp v) = Some d"
  shows "update_usage_stats_after_query (insert_query_log db v) r = insert_query_log db v"
proof -
  have "usage_stats_select (query_logs db @ [new_row db v]) r =
        usage_stats_select (query_logs db @ [new_row db v]) (new_row db v)"
    using assms by (simp add: select_same_date)
  then show ?thesis
    using assms(2)
    by (simp add: update_usage_stats_after_query_def usage_stats_insert query_logs_insert
        insert_or_replace_again [where d = d])
qed

lemma usage_stats_delete [simp]: "usage_stats (delete_query_log fk db qid) = usage_stats db"
  by (simp add: delete_query_log_def)

lemma stats_of_date_insert:
  "stats_of_date (insert_query_log db v) d =
     (if DATE (ql_timestamp v) = Some d
      then [usage_stats_select (query_logs db @ [new_row db v]) (new_row db v)]
      else stats_of_date db d)"
  by (simp add: stats_of_date_def usage_stats_insert stats_of_date_insert_or_replace)

subsection \<open>The aggregates of a date\<close>

text \<open>
  C1. Whatever was inserted before, after an insertion whose timestamp falls on the
  calendar date \<open>d\<close> the table \<open>usage_stats\<close> holds exactly one row for \<open>d\<close>. Its
  \<open>total_queries\<close> is the number of \<open>query_logs\<close> rows of that date, its
  \<open>successful_queries\<close> the number of those with \<open>success\<close> true, its
  \<open>avg_response_time\<close> the mean of their response times that are not \<open>NULL\<close>
  (\<open>NULL\<close> when there is none), and aggregating again for that date, from the full
  log, selects the same row and leaves the database as it is.
\<close>

theorem usage_stats_row_after_insertions:
  fixes db :: database and vs :: "query_log list"
  assumes "DATE (ql_timestamp v) = Some d"
  defines "db' \<equiv> insert_all db (vs @ [v])"
  shows "\<exists>s. stats_of_date db' d = [s]
           \<and> us_total_queries s = Some (int (length (logs_of_date db' d)))
           \<and> us_successful_queries s =
               Some (int (length (filter (\<lambda>r. ql_success r = Some True) (logs_of_date db' d))))
           \<and> us_avg_response_time s = mean (non_null (map ql_response_time_ms (logs_of_date db' d)))
           \<and> (\<forall>r. DATE (ql_timestamp r) = Some d \<longrightarrow>
                 usage_stats_select (query_logs db') r = s
                 \<and> update_usage_stats_after_query db' r = db')"
proof -
  define db0 where "db0 = insert_all db vs"
  define logs where "logs = query_logs db0 @ [new_row db0 v]"
  define s where "s = usage_stats_select logs (new_row db0 v)"
  have db': "db' = insert_query_log db0 v"
    by (simp add: db'_def db0_def insert_all_snoc)
  have ql: "query_logs db' = logs"
    by (simp add: db' logs_def query_logs_insert)
  have dn: "DATE (ql_timestamp (new_row db0 v)) = Some d"
    using assms(1) by simp
  have ne: "logs_of_date db' d \<noteq> []"
    using dn by (simp add: logs_of_date_def ql logs_def)
  have st: "stats_of_date db' d = [s]"
    by (simp add: stats_of_date_def db' usage_stats_insert stats_of_date_insert_or_replace
        s_def logs_def assms(1))
  have tot: "us_total_queries s = Some (int (length (logs_of_date db' d)))"
    by (simp add: s_def select_on_date [OF dn] logs_of_date_def ql)
  have suc: "us_successful_queries s =
      Some (int (length (filter (\<lambda>r. ql_success r = Some True) (logs_of_date db' d))))"
    using ne by (simp add: s_def select_on_date [OF dn] logs_of_date_def ql sql_sum_success_flag)
  have avg: "us_avg_response_time s = mean (non_null (map ql_response_time_ms (logs_of_date db' d)))"
    by (simp add: s_def select_on_date [OF dn] logs_of_date_def ql)
  have re: "usage_stats_select (query_logs db') r = s \<and> update_usage_stats_after_query db' r = db'"
    if "DATE (ql_timestamp r) = Some d" for r
  proof
    show "usage_stats_select (query_logs db') r = s"
      unfolding ql s_def using that dn by (intro select_same_date) simp
    show "update_usage_stats_after_query db' r = db'"
      unfolding db' using that assms(1) by (rule reaggregate_same)
  qed
  from st tot suc avg re show ?thesis by blast
qed

theorem usage_stats_row_after_insertions_witness:
  "DATE (ql_timestamp (example_log (Some 100000) (Some True) (Some 201))) = Some 1 \<and>
   (\<exists>s. stats_of_date (insert_all schema_init
            ([example_log (Some 86400) (Some True) (Some 100), example_log (Some 90000) (Some False) None]
              @ [example_log (Some 100000) (Some True) (Some 201)])) 1 = [s]
      \<and> us_total_queries s = Some 3 \<and> us_successful_queries s = Some 2
      \<and> us_avg_response_time s = Some (301 / 2))"
proof -
  have d: "DATE (ql_timestamp (example_log (Some 100000) (Some True) (Some 201))) = Some 1"
    by (simp add: DATE_def example_log_def)
  have l: "logs_of_date (insert_all schema_init
            ([example_log (Some 86400) (Some True) (Some 100), example_log (Some 90000) (Some False) None]
              @ [example_log (Some 100000) (Some True) (Some 201)])) 1 =
           [(example_log (Some 86400) (Some True) (Some 100))\<lparr>ql_id := 1\<rparr>,
            (example_log (Some 90000) (Some False) None)\<lparr>ql_id := 2\<rparr>,
            (example_log (Some 100000) (Some True) (Some 201))\<lparr>ql_id := 3\<rparr>]"
    by (simp add: logs_of_date_def insert_all_def insert_query_log_def add_query_log_def new_row_def
      update_usage_stats_after_query_def schema_init_def example_log_def DATE_def)
  from usage_stats_row_after_insertions [OF d, of schema_init
        "[example_log (Some 86400) (Some True) (Some 100), example_log (Some 90000) (Some False) None]"]
  obtain s where s: "stats_of_date (insert_all schema_init
            ([example_log (Some 86400) (Some True) (Some 100), example_log (Some 90000) (Some False) None]
              @ [example_log (Some 100000) (Some True) (Some 201)])) 1 = [s]"
      "us_total_queries s = Some 3"
      "us_successful_queries s = Some 2"
      "us_avg_response_time s = Some (301 / 2)"
    unfolding l by (auto simp: example_log_def mean_def)
  with d show ?thesis by blast
qed

subsection \<open>The success rate\<close>

text \<open>
  C2, as amended. After an insertion whose timestamp has a calendar date, that is whose
  \<open>DATE\<close> is not \<open>NULL\<close>, the row of that date has as \<open>total_queries\<close> the count of the
  log rows of the date, which is at least 1, so the divisor of the trigger's division is
  not zero, and its \<open>success_rate\<close> is
  \<open>successful_queries\<close> divided by \<open>total_queries\<close>, times 100, in floating-point
  arithmetic. The dashboard's card displays 0 for a total of 0.
\<close>

theorem success_rate_of_dated_insertion:
  assumes "DATE (ql_timestamp v) = Some d"
  shows "\<exists>s n k. stats_of_date (insert_query_log db v) d = [s]
           \<and> us_total_queries s = Some n \<and> us_successful_queries s = Some k
           \<and> n = int (length (logs_of_date (insert_query_log db v) d))
           \<and> k = int (length (filter (\<lambda>r. ql_success r = Some True)
                                 (logs_of_date (insert_query_log db v) d)))
           \<and> 1 \<le> n \<and> 0 \<le> k \<and> k \<le> n
           \<and> double_of_int n \<noteq> 0
           \<and> us_success_rate s =
               Some (double_mul (double_div (double_of_int k) (double_of_int n)) (double_of_int 100))
           \<and> (\<forall>successful. success_rate_display 0 successful = 0)"
proof -
  define logs where "logs = query_logs db @ [new_row db v]"
  define rows where "rows = filter (\<lambda>r. DATE (ql_timestamp r) = Some d) logs"
  define s where "s = usage_stats_select logs (new_row db v)"
  define k where "k = int (length (filter (\<lambda>r. ql_success r = Some True) rows))"
  have dn: "DATE (ql_timestamp (new_row db v)) = Some d"
    using assms by simp
  have ne: "rows \<noteq> []"
    using dn by (simp add: rows_def logs_def)
  have st: "stats_of_date (insert_query_log db v) d = [s]"
    by (simp add: stats_of_date_def usage_stats_insert stats_of_date_insert_or_replace
        s_def logs_def assms)
  have tot: "us_total_queries s = Some (int (length rows))"
    by (simp add: s_def select_on_date [OF dn] rows_def)
  have suc: "us_successful_queries s = Some k"
    using ne by (simp add: s_def select_on_date [OF dn] rows_def [symmetric] sql_sum_success_flag k_def)
  have n1: "1 \<le> int (length rows)"
    using ne by (cases rows) simp_all
  have kn: "0 \<le> k \<and> k \<le> int (length rows)"
    by (simp add: k_def)
  have nz: "double_of_int (int (length rows)) \<noteq> 0"
    using ne by (simp add: double_of_int_eq_0_iff)
  have rate: "us_success_rate s =
      Some (double_mul (double_div (double_of_int k) (double_of_int (int (length rows)))) (double_of_int 100))"
    using ne nz
    by (simp add: s_def select_on_date [OF dn] rows_def [symmetric] sql_sum_success_flag k_def
        sql_cast_real_def sql_div_def sql_mul_def)
  have disp: "\<forall>successful. success_rate_display 0 successful = 0"
    by (simp add: success_rate_display_def)
  have lg: "logs_of_date (insert_query_log db v) d = rows"
    by (simp add: logs_of_date_def query_logs_insert rows_def logs_def)
  have nl: "int (length rows) = int (length (logs_of_date (insert_query_log db v) d))"
    and kl: "k = int (length (filter (\<lambda>r. ql_success r = Some True)
                                 (logs_of_date (insert_query_log db v) d)))"
    by (simp_all add: lg k_def)
  from st tot suc nl kl n1 kn nz rate disp show ?thesis by blast
qed

text \<open>
  C2 as stated fails for a row whose timestamp is \<open>NULL\<close>, and for one whose timestamp is
  not a time: no row is selected, the trigger writes a total of 0, and the rate it writes
  is \<open>NULL\<close>, not 0.
\<close>

theorem success_rate_null_timestamp_counterexample:
  "map us_total_queries (usage_stats (insert_query_log schema_init null_timestamp_log)) = [Some 0]
   \<and> map us_success_rate (usage_stats (insert_query_log schema_init null_timestamp_log)) = [None]
   \<and> map us_total_queries (usage_stats (insert_query_log schema_init unix_time_log)) = [Some 0]
   \<and> map us_success_rate (usage_stats (insert_query_log schema_init unix_time_log)) = [None]"
  by (simp add: usage_stats_insert usage_stats_select_def rows_of_date_None DATE_def
      null_timestamp_log_def unix_time_log_def example_log_def new_row_def schema_init_def
      insert_or_replace_def sql_count_star_def sql_sum_def sql_avg_def avg_final_def
      sql_cast_real_def sql_div_def sql_mul_def)

text \<open>
  An example: of three rows of a day two succeeded, and the rate written is the binary64
  value that SQLite prints as 66.66666666666666.
\<close>

theorem success_rate_of_dated_insertion_witness:
  "DATE (ql_timestamp (example_log (Some 100000) (Some True) (Some 201))) = Some 1
   \<and> map us_total_queries (stats_of_date (insert_query_log example_db (example_log (Some 100000) (Some True) (Some 201))) 1) = [Some 3]
   \<and> map us_success_rate (stats_of_date (insert_query_log example_db (example_log (Some 100000) (Some True) (Some 201))) 1)
       = [Some (2345624805922133 / 35184372088832)]"
proof -
  have d: "DATE (ql_timestamp (example_log (Some 100000) (Some True) (Some 201))) = Some 1"
    by (simp add: DATE_def example_log_def)
  have t: "map us_total_queries (stats_of_date (insert_query_log example_db (example_log (Some 100000) (Some True) (Some 201))) 1) = [Some 3]"
    by (simp add: stats_of_date_insert d select_on_date example_db_def schema_init_def example_log_def DATE_def)
  have s: "map us_successful_queries (stats_of_date (insert_query_log example_db (example_log (Some 100000) (Some True) (Some 201))) 1) = [Some 2]"
    by (simp add: stats_of_date_insert d select_on_date example_db_def schema_init_def example_log_def DATE_def
          sql_sum_def sum_step_simps success_flag_def new_row_def)
  from success_rate_of_dated_insertion [OF d, of example_db]
  obtain s n k where
    "stats_of_date (insert_query_log example_db (example_log (Some 100000) (Some True) (Some 201))) 1 = [s]"
    "us_total_queries s = Some n" "us_successful_queries s = Some k"
    "us_success_rate s = Some (double_mul (double_div (double_of_int k) (double_of_int n)) (double_of_int 100))"
    by auto
  with t s have "map us_success_rate (stats_of_date (insert_query_log example_db (example_log (Some 100000) (Some True) (Some 201))) 1)
      = [Some (2345624805922133 / 35184372088832)]"
    by (simp add: double_percent_example)
  with d t show ?thesis by blast
qed

subsection \<open>One row for a date\<close>

lemma reachable_one_row: "reachable db \<Longrightarrow> length (stats_of_date db d) \<le> 1"
proof (induction rule: reachable.induct)
  case init
  show ?case by (simp add: stats_of_date_def schema_init_def)
next
  case (insert db v)
  then show ?case by (simp add: stats_of_date_insert)
next
  case (delete db fk qid)
  then show ?case by (simp add: stats_of_date_def)
qed

text \<open>
  C3. In every reachable state \<open>usage_stats\<close> holds at most one row for a calendar date;
  an insertion into \<open>query_logs\<close> leaves at most one row for every date, and exactly one
  for the date of the inserted entry.
\<close>

theorem one_usage_stats_row_per_date:
  assumes "reachable db"
  shows "length (stats_of_date db d) \<le> 1
       \<and> length (stats_of_date (insert_query_log db v) d) \<le> 1
       \<and> (DATE (ql_timestamp v) = Some d \<longrightarrow> length (stats_of_date (insert_query_log db v) d) = 1)"
proof -
  have "reachable (insert_query_log db v)"
    using assms by (rule reachable.insert)
  then have "length (stats_of_date (insert_query_log db v) d) \<le> 1"
    by (rule reachable_one_row)
  moreover have "length (stats_of_date db d) \<le> 1"
    using assms by (rule reachable_one_row)
  moreover have "DATE (ql_timestamp v) = Some d \<longrightarrow> length (stats_of_date (insert_query_log db v) d) = 1"
    by (simp add: stats_of_date_insert)
  ultimately show ?thesis by blast
qed

theorem one_usage_stats_row_per_date_witness:
  "reachable (insert_query_log schema_init (example_log (Some 86400) (Some True) (Some 100)))
   \<and> length (stats_of_date (insert_query_log schema_init (example_log (Some 86400) (Some True) (Some 100))) 1) = 1
   \<and> length (stats_of_date
        (insert_query_log (insert_query_log schema_init (example_log (Some 86400) (Some True) (Some 100)))
           (example_log (Some 90000) (Some False) None)) 1) = 1"
proof -
  have r: "reachable (insert_query_log schema_init (example_log (Some 86400) (Some True) (Some 100)))"
    by (rule reachable.insert, rule reachable.init)
  have d: "DATE (ql_timestamp (example_log (Some 90000) (Some False) None)) = Some 1"
    by (simp add: DATE_def example_log_def)
  have "length (stats_of_date (insert_query_log schema_init (example_log (Some 86400) (Some True) (Some 100))) 1) = 1"
    by (simp add: stats_of_date_insert DATE_def example_log_def)
  with r d one_usage_stats_row_per_date [OF r, of 1 "example_log (Some 90000) (Some False) None"]
  show ?thesis by simp
qed

subsection \<open>Failure of the recompute\<close>

text \<open>
  C4 as stated fails: when the trigger's write fails, the statement is backed out and
  \<open>query_logs\<close> does not hold the new row.
\<close>

theorem stats_failure_rolls_back_counterexample:
  "query_logs (run_statement (insert_query_log_stmt False (example_log (Some 86400) (Some True) (Some 100)))
      schema_init) = []"
  by (simp add: run_statement_def insert_query_log_stmt_def schema_init_def)

text \<open>
  C4, as amended. The insertion and the recompute are one statement: when the write to
  \<open>usage_stats\<close> fails the database is as before the statement, without the new row;
  when it succeeds the new row is appended and the date of the entry has its one row.
\<close>

theorem insert_and_stats_write_are_one_statement:
  "run_statement (insert_query_log_stmt ok v) db = (if ok then insert_query_log db v else db)
   \<and> query_logs (run_statement (insert_query_log_stmt ok v) db) =
       (if ok then query_logs db @ [new_row db v] else query_logs db)
   \<and> (ok \<and> DATE (ql_timestamp v) = Some d \<longrightarrow>
        length (stats_of_date (run_statement (insert_query_log_stmt ok v) db) d) = 1)"
  by (simp add: run_statement_def insert_query_log_stmt_def insert_query_log_def [symmetric]
      query_logs_insert stats_of_date_insert)

theorem insert_and_stats_write_are_one_statement_witness:
  "run_statement (insert_query_log_stmt False (example_log (Some 86400) (Some True) (Some 100))) schema_init
     = schema_init
   \<and> query_logs (run_statement (insert_query_log_stmt True (example_log (Some 86400) (Some True) (Some 100)))
       schema_init) = [new_row schema_init (example_log (Some 86400) (Some True) (Some 100))]
   \<and> length (stats_of_date (run_statement (insert_query_log_stmt True
        (example_log (Some 86400) (Some True) (Some 100))) schema_init) 1) = 1"
proof -
  have d: "DATE (ql_timestamp (example_log (Some 86400) (Some True) (Some 100))) = Some 1"
    by (simp add: DATE_def example_log_def)
  have e: "query_logs schema_init = []"
    by (simp add: schema_init_def)
  from insert_and_stats_write_are_one_statement
         [of False "example_log (Some 86400) (Some True) (Some 100)" schema_init 1]
  have a: "run_statement (insert_query_log_stmt False (example_log (Some 86400) (Some True) (Some 100)))
      schema_init = schema_init"
    by simp
  from insert_and_stats_write_are_one_statement
         [of True "example_log (Some 86400) (Some True) (Some 100)" schema_init 1] d e
  have b: "query_logs (run_statement (insert_query_log_stmt True (example_log (Some 86400) (Some True) (Some 100)))
       schema_init) = [new_row schema_init (example_log (Some 86400) (Some True) (Some 100))]
     \<and> length (stats_of_date (run_statement (insert_query_log_stmt True
        (example_log (Some 86400) (Some True) (Some 100))) schema_init) 1) = 1"
    by (simp add: query_logs_insert stats_of_date_insert)
  from a b show ?thesis by blast
qed

subsection \<open>Purging and feedback\<close>

text \<open>
  C9 as stated fails where foreign keys are enforced: deleting log row 1 deletes the
  feedback row that refers to it.
\<close>

theorem purge_cascades_to_feedback_counterexample:
  "feedback (delete_query_log True
      (schema_init\<lparr>query_logs := [(example_log (Some 86400) (Some True) (Some 100))\<lparr>ql_id := 1\<rparr>],
                   query_logs_seq := 1, feedback := [example_feedback 1 (Some 1)]\<rparr>) 1) = []"
  by (simp add: delete_query_log_def sql_eq_def example_feedback_def)

text \<open>
  C9, as amended. A purge keeps, unchanged and in order, every feedback row that does not
  refer to the purged entry. The rows that refer to it are deleted when foreign keys are
  enforced, and are all kept, dangling, when they are not.
\<close>

theorem purge_keeps_unrelated_feedback:
  "feedback (delete_query_log fk db qid) =
     filter (\<lambda>f. \<not> (fk \<and> fb_query_id f = Some qid)) (feedback db)
   \<and> (\<forall>f \<in> set (feedback db). fb_query_id f \<noteq> Some qid \<longrightarrow> f \<in> set (feedback (delete_query_log fk db qid)))
   \<and> (fk \<longrightarrow> (\<forall>f \<in> set (feedback (delete_query_log fk db qid)). fb_query_id f \<noteq> Some qid))
   \<and> (\<not> fk \<longrightarrow> feedback (delete_query_log fk db qid) = feedback db)"
  by (auto simp: delete_query_log_def sql_eq_simps intro: filter_cong)

theorem purge_keeps_unrelated_feedback_witness:
  "feedback (delete_query_log True example_db 1) = [example_feedback 2 (Some 2), example_feedback 3 None]
   \<and> feedback (delete_query_log False example_db 1) = feedback example_db"
proof -
  have f: "feedback example_db = [example_feedback 1 (Some 1), example_feedback 2 (Some 2), example_feedback 3 None]"
    by (simp add: example_db_def)
  have q: "fb_query_id (example_feedback i q) = q" for i q
    by (simp add: example_feedback_def)
  from purge_keeps_unrelated_feedback [of True example_db 1]
  have a: "feedback (delete_query_log True example_db 1) = [example_feedback 2 (Some 2), example_feedback 3 None]"
    by (simp add: f q)
  from purge_keeps_unrelated_feedback [of False example_db 1]
  have b: "feedback (delete_query_log False example_db 1) = feedback example_db"
    by simp
  from a b show ?thesis by blast
qed

section \<open>Properties of the Response Cache\<close>

lemma distinct_map_same:
  "distinct (map f xs) \<Longrightarrow> x \<in> set xs \<Longrightarrow> y \<in> set xs \<Longrightarrow> f x = f y \<Longrightarrow> x = y"
  by (meson distinct_map inj_onD)

lemma find_unique:
  assumes "distinct (map f xs)" and "x \<in> set xs"
  shows "find (\<lambda>y. f y = f x) xs = Some x"
proof (cases "find (\<lambda>y. f y = f x) xs")
  case None
  with assms(2) show ?thesis by (auto simp: find_None_iff)
next
  case (Some y)
  then have "y \<in> set xs" and "f y = f x"
    by (auto simp: find_Some_iff)
  with assms have "y = x" by (metis distinct_map_same)
  with Some show ?thesis by simp
qed

lemma trigger_keeps_update:
  assumes "rc_id new = i"
  shows "update_cache_hit_count (map (\<lambda>r. if rc_id r = i then new else r) tbl) old new =
         map (\<lambda>r. if rc_id r = i then new else r) tbl"
  using assms by (auto simp: update_cache_hit_count_def set_hit_count_def)

lemma update_hit_count_map:
  assumes "distinct (map rc_id tbl)"
  shows "update_hit_count tbl i e =
         map (\<lambda>r. if rc_id r = i then r\<lparr>rc_hit_count := eval_expr e r\<rparr> else r) tbl"
proof (cases "find (\<lambda>r. rc_id r = i) tbl")
  case None
  then have "\<forall>r \<in> set tbl. rc_id r \<noteq> i"
    by (auto simp: find_None_iff)
  then have "map (\<lambda>r. if rc_id r = i then r\<lparr>rc_hit_count := eval_expr e r\<rparr> else r) tbl = tbl"
    by (induction tbl) auto
  with None show ?thesis by (simp add: update_hit_count_def)
next
  case (Some old)
  then have o: "old \<in> set tbl" "rc_id old = i"
    by (auto simp: find_Some_iff)
  have same: "r = old" if "r \<in> set tbl" "rc_id r = i" for r
    using assms that o by (metis distinct_map_same)
  have "map (\<lambda>r. if rc_id r = i then old\<lparr>rc_hit_count := eval_expr e old\<rparr> else r) tbl =
        map (\<lambda>r. if rc_id r = i then r\<lparr>rc_hit_count := eval_expr e r\<rparr> else r) tbl"
    by (rule map_cong) (auto dest: same)
  moreover have "rc_id (old\<lparr>rc_hit_count := eval_expr e old\<rparr>) = i"
    using o by simp
  ultimately show ?thesis
    using Some by (simp add: update_hit_count_def Let_def trigger_keeps_update)
qed

lemma not_decreased_refl [simp]: "not_decreased a a"
  by (simp add: not_decreased_def split: option.splits)



lemma map_keeps_key:
  "(\<And>r. f (g r) = f r) \<Longrightarrow> map f (map g xs) = map f xs"
  by simp

lemma cache_wf_update:
  assumes "cache_wf db"
  shows "cache_wf (db\<lparr>response_cache := update_hit_count (response_cache db) i e\<rparr>)"
proof -
  let ?g = "\<lambda>r. if rc_id r = i then r\<lparr>rc_hit_count := eval_expr e r\<rparr> else r"
  have u: "update_hit_count (response_cache db) i e = map ?g (response_cache db)"
    using assms by (simp add: cache_wf_def update_hit_count_map)
  have k1: "map rc_id (map ?g (response_cache db)) = map rc_id (response_cache db)"
    by (rule map_keeps_key) simp
  have k2: "map rc_query_hash (map ?g (response_cache db)) = map rc_query_hash (response_cache db)"
    by (rule map_keeps_key) simp
  have k3: "list_all (\<lambda>r. rc_id r \<le> response_cache_seq db) (map ?g (response_cache db))"
    using assms by (auto simp: cache_wf_def list_all_iff)
  show ?thesis
    using assms by (simp add: cache_wf_def u k1 k2 k3 del: map_map)
qed

lemma cache_wf_lookup: "cache_wf db \<Longrightarrow> cache_wf (snd (cache_lookup h now db p q))"
  by (auto simp: cache_lookup_def cache_wf_update split: option.splits)

lemma cache_wf_store:
  assumes "cache_wf db"
  shows "cache_wf (cache_store h now db p q answer conf ttl)"
proof -
  have "Suc (response_cache_seq db) \<notin> rc_id ` set (response_cache db)"
    using assms by (auto simp: cache_wf_def list_all_iff)
  then show ?thesis
    using assms
    by (auto simp: cache_wf_def cache_store_def list_all_iff distinct_map_filter)
qed

lemma cache_wf_apply_op: "cache_wf db \<Longrightarrow> cache_wf (apply_op h op db)"
  by (cases op) (simp_all add: cache_wf_lookup cache_wf_store)

lemma cache_wf_run_ops: "cache_wf db \<Longrightarrow> cache_wf (run_ops h ops db)"
  unfolding run_ops_def by (induction ops arbitrary: db) (simp_all add: cache_wf_apply_op)















lemma cache_wf_init: "cache_wf schema_init"
  by (simp add: cache_wf_def schema_init_def)

lemma example_cache_rows:
  "response_cache example_cache =
     [\<lparr>rc_id = 1, rc_query_hash = ''allocator:match code 3'', rc_product = ''allocator'',
       rc_response_text = ''Check the geocoder'', rc_confidence = None,
       rc_created_at = Some 1000, rc_expires_at = Some 4600, rc_hit_count = Some 0\<rparr>]"
  by (simp add: example_cache_def cache_store_def schema_init_def example_hash_def)






text \<open>
  C7. A lookup for the key of a cached row with \<open>now >= expires_at\<close> is a miss, and
  leaves the database as it is, the row still in the table. The next store for that key
  removes it: afterwards the table holds one row for the key, the one just stored, no
  row has the stale row's id, and with a positive time to live a lookup at the time of
  the store hits the new row.
\<close>

theorem expired_row_is_a_miss:
  assumes "cache_wf db" and "r \<in> set (response_cache db)" and "rc_query_hash r = h p q"
    and "rc_expires_at r = Some e" and "e \<le> now"
  shows "cache_lookup h now db p q = (None, db)
       \<and> filter (\<lambda>x. rc_query_hash x = h p q)
            (response_cache (cache_store h t db p q answer conf ttl)) =
          [\<lparr>rc_id = Suc (response_cache_seq db), rc_query_hash = h p q, rc_product = p,
            rc_response_text = answer, rc_confidence = conf, rc_created_at = Some t,
            rc_expires_at = Some (t + ttl), rc_hit_count = Some 0\<rparr>]
       \<and> rc_id r \<notin> rc_id ` set (response_cache (cache_store h t db p q answer conf ttl))
       \<and> (0 < ttl \<longrightarrow>
            fst (cache_lookup h t (cache_store h t db p q answer conf ttl) p q) =
            Some \<lparr>rc_id = Suc (response_cache_seq db), rc_query_hash = h p q, rc_product = p,
              rc_response_text = answer, rc_confidence = conf, rc_created_at = Some t,
              rc_expires_at = Some (t + ttl), rc_hit_count = Some 0\<rparr>)"
proof -
  let ?new = "\<lparr>rc_id = Suc (response_cache_seq db), rc_query_hash = h p q, rc_product = p,
            rc_response_text = answer, rc_confidence = conf, rc_created_at = Some t,
            rc_expires_at = Some (t + ttl), rc_hit_count = Some (0::int)\<rparr>"
  let ?db' = "cache_store h t db p q answer conf ttl"
  have f: "find (\<lambda>x. rc_query_hash x = h p q) (response_cache db) = Some r"
    using find_unique [of rc_query_hash "response_cache db" r] assms(1-3)
    by (simp add: cache_wf_def)
  have miss: "cache_lookup h now db p q = (None, db)"
    using assms(4,5) by (simp add: cache_lookup_def f expired_def)
  have rows: "filter (\<lambda>x. rc_query_hash x = h p q) (response_cache ?db') = [?new]"
    by (simp add: cache_store_def)
  have gone: "rc_id r \<notin> rc_id ` set (response_cache ?db')"
  proof
    assume "rc_id r \<in> rc_id ` set (response_cache ?db')"
    then obtain x where x: "x \<in> set (response_cache ?db')" and i: "rc_id x = rc_id r"
      by auto
    have le: "rc_id r \<le> response_cache_seq db"
      using assms(1,2) by (auto simp: cache_wf_def list_all_iff)
    from x have "x = ?new \<or> (x \<in> set (response_cache db) \<and> rc_query_hash x \<noteq> h p q)"
      by (auto simp: cache_store_def)
    then show False
    proof
      assume "x = ?new"
      with i le show False by simp
    next
      assume a: "x \<in> set (response_cache db) \<and> rc_query_hash x \<noteq> h p q"
      then have "x = r"
        using assms(1,2) i distinct_map_same [of rc_id "response_cache db" x r]
        by (simp add: cache_wf_def)
      with a assms(3) show False by simp
    qed
  qed
  have hit: "fst (cache_lookup h t ?db' p q) = Some ?new" if "0 < ttl"
  proof -
    have wf': "cache_wf ?db'"
      using assms(1) by (rule cache_wf_store)
    have "?new \<in> set (response_cache ?db')"
      by (simp add: cache_store_def)
    then have "find (\<lambda>x. rc_query_hash x = h p q) (response_cache ?db') = Some ?new"
      using find_unique [of rc_query_hash "response_cache ?db'" ?new] wf'
      by (simp add: cache_wf_def)
    then show ?thesis
      using that by (simp add: cache_lookup_def expired_def)
  qed
  from miss rows gone hit show ?thesis by blast
qed

theorem expired_row_is_a_miss_witness:
  "cache_wf example_cache
   \<and> cache_lookup example_hash 5000 example_cache ''allocator'' ''match code 3'' = (None, example_cache)
   \<and> map rc_id (response_cache (cache_store example_hash 5000 example_cache ''allocator''
        ''match code 3'' ''Check the geocoder again'' None 3600)) = [2]"
proof -
  have wf: "cache_wf example_cache"
    unfolding example_cache_def by (intro cache_wf_store cache_wf_init)
  let ?r = "\<lparr>rc_id = 1, rc_query_hash = ''allocator:match code 3'', rc_product = ''allocator'',
       rc_response_text = ''Check the geocoder'', rc_confidence = None,
       rc_created_at = Some 1000, rc_expires_at = Some 4600, rc_hit_count = Some (0::int)\<rparr>"
  have r: "?r \<in> set (response_cache example_cache)"
    by (simp add: example_cache_rows)
  have k: "rc_query_hash ?r = example_hash ''allocator'' ''match code 3''"
    by (simp add: example_hash_def)
  have e: "rc_expires_at ?r = Some 4600" and l: "(4600::nat) \<le> 5000"
    by simp_all
  from expired_row_is_a_miss [where h = "example_hash" and p = "''allocator''"
      and q = "''match code 3''" and t = "5000" and answer = "''Check the geocoder again''"
      and conf = "None" and ttl = "3600", OF wf r k e l]
  have "cache_lookup example_hash 5000 example_cache ''allocator'' ''match code 3'' = (None, example_cache)"
    by simp
  moreover have "map rc_id (response_cache (cache_store example_hash 5000 example_cache ''allocator''
        ''match code 3'' ''Check the geocoder again'' None 3600)) = [2]"
    by (simp add: cache_store_def example_cache_rows example_hash_def example_cache_def schema_init_def)
  ultimately show ?thesis using wf by blast
qed

section \<open>Properties of the Admin Auth Gate\<close>

lemma login_wrong_unlocked:
  assumes "au_locked_until u = None" and "\<not> verify cfg password (au_password_hash u)"
  shows "login cfg now password u =
     (Inl InvalidCredentials,
      if threshold cfg \<le> attempts_of u + 1
      then u\<lparr>au_login_attempts := Some (attempts_of u + 1),
             au_locked_until := Some (now + lockout_duration cfg)\<rparr>
      else u\<lparr>au_login_attempts := Some (attempts_of u + 1)\<rparr>)"
  using assms by (simp add: login_def locked_def unlock_elapsed_def Let_def)

lemma failures_below_threshold:
  assumes "au_locked_until u = None"
    and "\<forall>a \<in> set fs. wrong cfg u a"
    and "attempts_of u + int (length fs) < threshold cfg"
  shows "logins cfg fs u = (if fs = [] then u else u\<lparr>au_login_attempts := Some (attempts_of u + int (length fs))\<rparr>)"
  using assms
proof (induction fs arbitrary: u)
  case Nil
  show ?case by simp
next
  case (Cons a fs)
  obtain now password where a: "a = (now, password)"
    by (cases a)
  let ?u1 = "u\<lparr>au_login_attempts := Some (attempts_of u + 1)\<rparr>"
  have w: "\<not> verify cfg password (au_password_hash u)"
    using Cons.prems(2) a by (simp add: wrong_def)
  have lt: "\<not> threshold cfg \<le> attempts_of u + 1"
    using Cons.prems(3) by simp
  have step: "login cfg now password u = (Inl InvalidCredentials, ?u1)"
    using login_wrong_unlocked [OF Cons.prems(1) w, of now] lt by simp
  have at: "attempts_of ?u1 = attempts_of u + 1"
    by (simp add: attempts_of_def)
  have "logins cfg fs ?u1 =
        (if fs = [] then ?u1 else ?u1\<lparr>au_login_attempts := Some (attempts_of ?u1 + int (length fs))\<rparr>)"
  proof (rule Cons.IH)
    show "au_locked_until ?u1 = None"
      using Cons.prems(1) by simp
    show "\<forall>a \<in> set fs. wrong cfg ?u1 a"
      using Cons.prems(2) by (simp add: wrong_def)
    show "attempts_of ?u1 + int (length fs) < threshold cfg"
      using Cons.prems(3) at by simp
  qed
  then show ?case
    by (simp add: a step at add.assoc)
qed

lemma logins_append: "logins cfg (xs @ ys) u = logins cfg ys (logins cfg xs u)"
  by (induction cfg xs u rule: logins.induct) simp_all

lemma failures_keep_account:
  assumes "au_locked_until u = None" and "\<forall>a \<in> set fs. wrong cfg u a"
    and "attempts_of u + int (length fs) < threshold cfg"
  shows "au_locked_until (logins cfg fs u) = None"
    and "attempts_of (logins cfg fs u) = attempts_of u + int (length fs)"
    and "au_password_hash (logins cfg fs u) = au_password_hash u"
  using assms(1) by (simp_all add: failures_below_threshold [OF assms] attempts_of_def)

text \<open>
  C6. From an account that is not locked and has no failed attempt, with a threshold
  \<open>N\<close> of at least 1: the first \<open>N - 1\<close> failed logins leave the account unlocked, and
  the \<open>N\<close>-th, at time \<open>t\<close>, locks it until \<open>t + lockout_duration\<close>. Before that time
  every login fails with \<open>AccountLocked\<close> and changes nothing, the correct password
  included. From that time on the attempt is taken afresh: the correct password logs in
  and leaves \<open>login_attempts\<close> at 0, a wrong one fails with \<open>InvalidCredentials\<close> as the
  first failure of a new count.
\<close>

theorem lockout_after_threshold_failures:
  assumes "au_locked_until u = None" and "attempts_of u = 0"
    and "int (length fs) + 1 = threshold cfg"
    and "\<forall>a \<in> set (fs @ [(t, p)]). wrong cfg u a"
  shows "(\<forall>k \<le> length fs. au_locked_until (logins cfg (take k fs) u) = None)
       \<and> au_locked_until (logins cfg (fs @ [(t, p)]) u) = Some (t + lockout_duration cfg)
       \<and> (\<forall>now password. now < t + lockout_duration cfg \<longrightarrow>
            login cfg now password (logins cfg (fs @ [(t, p)]) u) =
              (Inl AccountLocked, logins cfg (fs @ [(t, p)]) u))
       \<and> (\<forall>now password. t + lockout_duration cfg \<le> now
              \<and> verify cfg password (au_password_hash u) \<longrightarrow>
            fst (login cfg now password (logins cfg (fs @ [(t, p)]) u)) = Inr ()
            \<and> au_login_attempts (snd (login cfg now password (logins cfg (fs @ [(t, p)]) u))) = Some 0
            \<and> au_locked_until (snd (login cfg now password (logins cfg (fs @ [(t, p)]) u))) = None)
       \<and> (\<forall>now password. t + lockout_duration cfg \<le> now
              \<and> \<not> verify cfg password (au_password_hash u) \<longrightarrow>
            fst (login cfg now password (logins cfg (fs @ [(t, p)]) u)) = Inl InvalidCredentials
            \<and> au_login_attempts (snd (login cfg now password (logins cfg (fs @ [(t, p)]) u))) = Some 1)"
proof -
  define v where "v = logins cfg fs u"
  define u' where "u' = logins cfg (fs @ [(t, p)]) u"
  have wfs: "\<forall>a \<in> set fs. wrong cfg u a" and wp: "\<not> verify cfg p (au_password_hash u)"
    using assms(4) by (simp_all add: wrong_def)
  have below: "attempts_of u + int (length fs) < threshold cfg"
    using assms(2,3) by simp
  have v: "au_locked_until v = None" "attempts_of v = int (length fs)"
      "au_password_hash v = au_password_hash u"
    unfolding v_def using failures_keep_account [OF assms(1) wfs below] assms(2) by simp_all
  have prefixes: "\<forall>k \<le> length fs. au_locked_until (logins cfg (take k fs) u) = None"
  proof (intro allI impI)
    fix k assume "k \<le> length fs"
    have "\<forall>a \<in> set (take k fs). wrong cfg u a"
      using wfs by (meson in_set_takeD)
    moreover have "attempts_of u + int (length (take k fs)) < threshold cfg"
      using below by simp
    ultimately show "au_locked_until (logins cfg (take k fs) u) = None"
      using assms(1) by (intro failures_keep_account(1))
  qed
  have u'_eq: "u' = v\<lparr>au_login_attempts := Some (threshold cfg),
                      au_locked_until := Some (t + lockout_duration cfg)\<rparr>"
  proof -
    have "\<not> verify cfg p (au_password_hash v)"
      using wp v(3) by simp
    from login_wrong_unlocked [OF v(1) this, of t]
    have "login cfg t p v = (Inl InvalidCredentials,
        v\<lparr>au_login_attempts := Some (threshold cfg), au_locked_until := Some (t + lockout_duration cfg)\<rparr>)"
      using v(2) assms(3) by simp
    then show ?thesis
      by (simp add: u'_def logins_append v_def)
  qed
  have lock: "au_locked_until u' = Some (t + lockout_duration cfg)"
    by (simp add: u'_eq)
  have hash: "au_password_hash u' = au_password_hash u"
    by (simp add: u'_eq v(3))
  have while_locked: "login cfg now password u' = (Inl AccountLocked, u')"
    if "now < t + lockout_duration cfg" for now password
    using that by (simp add: login_def locked_def lock)
  have fresh: "unlock_elapsed u' = u'\<lparr>au_login_attempts := Some 0, au_locked_until := None\<rparr>"
    by (simp add: unlock_elapsed_def lock)
  have after_ok: "fst (login cfg now password u') = Inr ()
        \<and> au_login_attempts (snd (login cfg now password u')) = Some 0
        \<and> au_locked_until (snd (login cfg now password u')) = None"
    if "t + lockout_duration cfg \<le> now" "verify cfg password (au_password_hash u)" for now password
    using that by (simp add: login_def locked_def lock fresh hash Let_def)
  have after_wrong: "fst (login cfg now password u') = Inl InvalidCredentials
        \<and> au_login_attempts (snd (login cfg now password u')) = Some 1"
    if "t + lockout_duration cfg \<le> now" "\<not> verify cfg password (au_password_hash u)" for now password
    using that by (simp add: login_def locked_def lock fresh hash Let_def attempts_of_def)
  from prefixes lock while_locked after_ok after_wrong show ?thesis
    unfolding u'_def by blast
qed

theorem lockout_after_threshold_failures_witness:
  "au_locked_until (logins example_gate [(100, ''a''), (110, ''b'')] example_admin) = None
   \<and> au_locked_until (logins example_gate ([(100, ''a''), (110, ''b'')] @ [(120, ''c'')]) example_admin)
       = Some 1020
   \<and> fst (login example_gate 1019 ''admin123''
        (logins example_gate ([(100, ''a''), (110, ''b'')] @ [(120, ''c'')]) example_admin))
       = Inl AccountLocked
   \<and> fst (login example_gate 1020 ''admin123''
        (logins example_gate ([(100, ''a''), (110, ''b'')] @ [(120, ''c'')]) example_admin))
       = Inr ()"
proof -
  have a: "au_locked_until example_admin = None" and b: "attempts_of example_admin = 0"
    by (simp_all add: example_admin_def attempts_of_def)
  have c: "int (length [(100::nat, ''a''), (110, ''b'')]) + 1 = threshold example_gate"
    by (simp add: example_gate_def)
  have d: "\<forall>a \<in> set ([(100, ''a''), (110, ''b'')] @ [(120, ''c'')]). wrong example_gate example_admin a"
    by (simp add: wrong_def example_gate_def example_admin_def)
  have v: "verify example_gate ''admin123'' (au_password_hash example_admin)"
    by (simp add: example_gate_def example_admin_def)
  have l: "lockout_duration example_gate = 900"
    by (simp add: example_gate_def)
  note t = lockout_after_threshold_failures [OF a b c d]
  from t [THEN conjunct1, rule_format, of 2]
  have 1: "au_locked_until (logins example_gate [(100, ''a''), (110, ''b'')] example_admin) = None"
    by simp
  from t [THEN conjunct2, THEN conjunct1] l
  have 2: "au_locked_until (logins example_gate ([(100, ''a''), (110, ''b'')] @ [(120, ''c'')]) example_admin)
       = Some 1020"
    by simp
  from t [THEN conjunct2, THEN conjunct2, THEN conjunct1, rule_format, of 1019 "''admin123''"] l
  have 3: "fst (login example_gate 1019 ''admin123''
        (logins example_gate ([(100, ''a''), (110, ''b'')] @ [(120, ''c'')]) example_admin))
       = Inl AccountLocked"
    by simp
  from t [THEN conjunct2, THEN conjunct2, THEN conjunct2, THEN conjunct1, rule_format,
          of 1020 "''admin123''"] l v
  have 4: "fst (login example_gate 1020 ''admin123''
        (logins example_gate ([(100, ''a''), (110, ''b'')] @ [(120, ''c'')]) example_admin))
       = Inr ()"
    by simp
  from 1 2 3 4 show ?thesis by blast
qed

section \<open>Properties of the API key's display\<close>

lemma find_map_same:
  "(\<And>x. P (g x) = P x) \<Longrightarrow> find P (map g xs) = map_option g (find P xs)"
  by (induction xs) simp_all

lemma key_is_set_post:
  assumes "\<exists>c \<in> set tbl. ac_config_key c = ''claude_api_key''"
  shows "key_is_set (post_config now admin tbl key) = (key \<noteq> [])"
proof -
  let ?g = "\<lambda>c. if ac_config_key c = ''claude_api_key''
               then c\<lparr>ac_config_value := Some key, ac_updated_at := Some now, ac_updated_by := Some admin\<rparr>
               else c"
  from assms obtain c where c: "find (\<lambda>c. ac_config_key c = ''claude_api_key'') tbl = Some c"
    by (cases "find (\<lambda>c. ac_config_key c = ''claude_api_key'') tbl") (auto simp: find_None_iff)
  have "find (\<lambda>c. ac_config_key c = ''claude_api_key'') (map ?g tbl) =
        map_option ?g (find (\<lambda>c. ac_config_key c = ''claude_api_key'') tbl)"
    by (rule find_map_same) simp
  then have "find (\<lambda>c. ac_config_key c = ''claude_api_key'') (map ?g tbl) = Some (?g c)"
    using c by simp
  moreover have "ac_config_key c = ''claude_api_key''"
    using c by (auto simp: find_Some_iff)
  ultimately show ?thesis
    by (simp add: key_is_set_def post_config_def)
qed

text \<open>
  C8. Whatever two keys have been stored, not empty, the body of \<open>GET /api/admin/config\<close>
  is the same, the presence indicator, and what the dashboard shows after loading it is
  the same, the mask. And the dashboard shows the mask for every \<open>ok\<close> answer whose field is
  true in a condition, so its state never takes the field's value.
\<close>

theorem api_key_is_masked:
  assumes "\<exists>c \<in> set tbl. ac_config_key c = ''claude_api_key''"
    and "key1 \<noteq> []" and "key2 \<noteq> []"
  shows "get_config (post_config now1 admin1 tbl key1) = get_config (post_config now2 admin2 tbl key2)
       \<and> get_config (post_config now1 admin1 tbl key1) = Some (JBool True)
       \<and> loadConfiguration (Response True (get_config (post_config now1 admin1 tbl key1))) s = key_mask
       \<and> loadConfiguration (Response True (get_config (post_config now2 admin2 tbl key2))) s = key_mask
       \<and> (\<forall>v. truthy v \<longrightarrow> loadConfiguration (Response True v) s = key_mask)"
  using assms
  by (simp add: get_config_def key_is_set_post loadConfiguration_def)

theorem api_key_is_masked_witness:
  "get_config (post_config 10 ''admin'' [claude_api_key_row 0] ''sk-ant-api03-one'')
     = get_config (post_config 20 ''admin'' [claude_api_key_row 0] ''sk-ant-api03-two'')
   \<and> loadConfiguration (Response True
        (get_config (post_config 10 ''admin'' [claude_api_key_row 0] ''sk-ant-api03-one''))) [] = key_mask
   \<and> loadConfiguration (Response True (Some (JString (str ''sk-ant-api03-one'')))) [] = key_mask"
proof -
  have a: "\<exists>c \<in> set [claude_api_key_row 0]. ac_config_key c = ''claude_api_key''"
    by (simp add: claude_api_key_row_def)
  have b: "''sk-ant-api03-one'' \<noteq> []" and c: "''sk-ant-api03-two'' \<noteq> []"
    by simp_all
  have d: "truthy (Some (JString (str ''sk-ant-api03-one'')))"
    by (simp add: str_def)
  note t = api_key_is_masked [OF a b c, of 10 "''admin''" 20 "''admin''" "[]"]
  from t [THEN conjunct2, THEN conjunct2, THEN conjunct2, THEN conjunct2, rule_format, OF d]
  have "loadConfiguration (Response True (Some (JString (str ''sk-ant-api03-one'')))) [] = key_mask" .
  with t show ?thesis by blast
qed

section \<open>Properties of the response formatter\<close>

lemma split_from_not_empty: "split_from sep cur s \<noteq> []"
  by (induction sep cur s rule: split_from.induct) simp_all

lemma js_join_Cons: "ys \<noteq> [] \<Longrightarrow> js_join sep (x # ys) = x @ sep @ js_join sep ys"
  by (cases ys) simp_all

lemma join_split_newline: "js_join [10] (split_from [10] cur s) = rev cur @ s"
proof (induction s arbitrary: cur)
  case Nil
  show ?case by simp
next
  case (Cons c s)
  show ?case
  proof (cases "c = 10")
    case True
    then show ?thesis
      by (simp add: js_join_Cons split_from_not_empty Cons.IH)
  next
    case False
    then show ?thesis
      by (simp add: Cons.IH)
  qed
qed

lemma hd_split_newline: "hd (split_from [10] cur s) = rev cur @ takeWhile (\<lambda>c. c \<noteq> 10) s"
  by (induction s arbitrary: cur) simp_all

lemma split_newline_parts:
  "\<exists>rest. js_split newline s = first_line s # rest \<and> js_join newline rest = after_first_line s"
proof -
  obtain first rest where fr: "split_from [10] [] s = first # rest"
    using split_from_not_empty [of "[10]" "[]" s] by (cases "split_from [10] [] s") auto
  have first: "first = first_line s"
    using hd_split_newline [of "[]" s] fr by (simp add: first_line_def)
  have whole: "js_join [10] (first # rest) = s"
    using join_split_newline [of "[]" s] fr by simp
  have "js_join [10] rest = after_first_line s"
  proof (cases "rest = []")
    case True
    with whole first show ?thesis
      by (simp add: after_first_line_def)
  next
    case False
    with whole have "s = first @ [10] @ js_join [10] rest"
      by (simp add: js_join_Cons)
    moreover have "drop (Suc (length first)) (first @ [10] @ js_join [10] rest) = js_join [10] rest"
      by simp
    ultimately have "drop (Suc (length first)) s = js_join [10] rest"
      by simp
    with first show ?thesis
      by (simp add: after_first_line_def)
  qed
  with fr first show ?thesis
    by (simp add: js_split_def newline_def)
qed

lemma section_parts_eq:
  "section_parts section = Inr (trim (first_line (trim section)), trim (after_first_line (trim section)))"
proof -
  obtain rest where "js_split newline (trim section) = first_line (trim section) # rest"
    and "js_join newline rest = after_first_line (trim section)"
    using split_newline_parts by blast
  then show ?thesis
    by (simp add: section_parts_def)
qed

lemma collect_Inr: "collect (map (\<lambda>p. Inr (f p)) xs) = Inr (map f xs)"
  by (induction xs) simp_all

lemma split_without_separator:
  "sep \<noteq> [] \<Longrightarrow> \<not> js_includes sep s \<Longrightarrow> split_from sep cur s = [rev cur @ s]"
  by (induction s arbitrary: cur) auto

lemma render_section_eq:
  "render_section lc second by_line p =
     Inr \<lparr>el_key = fst p,
          el_icon = getSectionIcon lc second (trim (first_line (trim (snd p)))),
          el_title = trim (first_line (trim (snd p))),
          el_content = trim (after_first_line (trim (snd p))),
          el_paragraphs = (if by_line
             then map trim (js_split newline (trim (after_first_line (trim (snd p)))))
             else [trim (after_first_line (trim (snd p)))])\<rparr>"
  by (simp add: render_section_def section_parts_eq)

lemma format_with_elements:
  assumes "t \<noteq> []"
  shows "\<exists>els. format_with lc second by_line (Some t) = Inr (Elements els)
           \<and> map el_key els = [0..<length (sections_of t)]
           \<and> map el_title els = map (\<lambda>s. trim (first_line (trim s))) (sections_of t)
           \<and> map el_content els = map (\<lambda>s. trim (after_first_line (trim s))) (sections_of t)"
proof -
  let ?el = "\<lambda>p. \<lparr>el_key = fst p,
          el_icon = getSectionIcon lc second (trim (first_line (trim (snd p)))),
          el_title = trim (first_line (trim (snd p))),
          el_content = trim (after_first_line (trim (snd p))),
          el_paragraphs = (if by_line
             then map trim (js_split newline (trim (after_first_line (trim (snd p)))))
             else [trim (after_first_line (trim (snd p)))])\<rparr>"
  let ?ps = "enumerate 0 (sections_of t)"
  have r: "render_section lc second by_line = (\<lambda>p. Inr (?el p))"
    by (rule ext) (rule render_section_eq)
  have f: "format_with lc second by_line (Some t) = Inr (Elements (map ?el ?ps))"
    using assms by (simp add: format_with_def sections_of_def [symmetric] r collect_Inr)
  have k: "map el_key (map ?el ?ps) = [0..<length (sections_of t)]"
    by (simp add: comp_def map_fst_enumerate del: upt_Suc)
  have sn: "map (g \<circ> snd) ?ps = map g (sections_of t)" for g :: "jsstring \<Rightarrow> jsstring"
  proof -
    have "map (g \<circ> snd) ?ps = map g (map snd ?ps)"
      by (simp only: map_map)
    then show ?thesis by simp
  qed
  have ti: "map el_title (map ?el ?ps) = map (\<lambda>s. trim (first_line (trim s))) (sections_of t)"
    using sn [of "\<lambda>s. trim (first_line (trim s))"] by (simp add: comp_def)
  have co: "map el_content (map ?el ?ps) = map (\<lambda>s. trim (after_first_line (trim s))) (sections_of t)"
    using sn [of "\<lambda>s. trim (after_first_line (trim s))"] by (simp add: comp_def)
  from f k ti co show ?thesis by blast
qed

lemma sections_of_whole:
  assumes "\<not> js_includes hashes t" and "trim t \<noteq> []"
  shows "sections_of t = [t]"
proof -
  have "hashes \<noteq> []"
    by (simp add: hashes_def)
  then have "js_split hashes t = [t]"
    using assms(1) by (simp add: js_split_def split_without_separator)
  with assms(2) show ?thesis
    by (simp add: sections_of_def)
qed

lemma format_with_single:
  assumes "\<not> js_includes hashes t" and "trim t \<noteq> []"
  shows "\<exists>el. format_with lc second by_line (Some t) = Inr (Elements [el])
           \<and> el_title el = trim (first_line (trim t))
           \<and> el_content el = trim (after_first_line (trim t))"
proof -
  have ne: "t \<noteq> []"
    using assms(2) by (auto simp: trim_def)
  from format_with_elements [OF ne, of lc second by_line]
  obtain els where els: "format_with lc second by_line (Some t) = Inr (Elements els)"
    "map el_title els = map (\<lambda>s. trim (first_line (trim s))) (sections_of t)"
    "map el_content els = map (\<lambda>s. trim (after_first_line (trim s))) (sections_of t)"
    by blast
  have one: "sections_of t = [t]"
    using assms by (rule sections_of_whole)
  from els(2) one obtain el where el: "els = [el]"
    by (cases els) auto
  with els one show ?thesis by simp
qed

lemma format_with_renders: "renders_sections (format_with lc second by_line)"
  unfolding renders_sections_def
  by (intro conjI allI impI format_with_elements format_with_single)
     (simp_all add: format_with_def)

text \<open>
  C10, as amended. Both versions of \<open>formatResponse\<close> return the empty string for a text
  that is \<open>null\<close> or empty. Any other text is split on \<open>'##'\<close>, the blank pieces are dropped,
  and each remaining piece is trimmed and rendered as one section: its title is the first
  line of the trimmed piece, trimmed, and its content is what follows that line,
  trimmed. So a text that is not blank and includes no \<open>'##'\<close> yields one section, titled by
  the first line of the trimmed text. No call throws.
\<close>

theorem formatResponse_renders_sections:
  "renders_sections (formatResponse toLowerCase)
   \<and> renders_sections (formatResponse_by_line toLowerCase)"
proof -
  have "formatResponse toLowerCase = format_with toLowerCase (str ''solutions'') False"
    by (rule ext) (simp add: formatResponse_def)
  moreover have "formatResponse_by_line toLowerCase = format_with toLowerCase (str ''immediate'') True"
    by (rule ext) (simp add: formatResponse_by_line_def)
  ultimately show ?thesis
    by (simp add: format_with_renders)
qed

lemma leading_blank_text_value: "leading_blank_text = [10, 84, 105, 116, 108, 101, 10, 66, 111, 100, 121]"
  by (simp add: leading_blank_text_def str_def)

lemma js_whitespace_values:
  "js_whitespace 10" "\<not> js_whitespace 84" "\<not> js_whitespace 101" "\<not> js_whitespace 66" "\<not> js_whitespace 121"
  by (simp_all add: js_whitespace_def)

lemma example_no_hashes: "\<not> js_includes hashes leading_blank_text"
  by (simp add: leading_blank_text_value hashes_def)

lemma example_trimmed: "trim leading_blank_text = [84, 105, 116, 108, 101, 10, 66, 111, 100, 121]"
  by (simp add: leading_blank_text_value trim_def js_whitespace_values)

lemma example_first_line: "first_line [84, 105, 116, 108, 101, 10, 66, 111, 100, 121] = [84, 105, 116, 108, 101]"
  by (simp add: first_line_def)

lemma example_after_first_line: "after_first_line [84, 105, 116, 108, 101, 10, 66, 111, 100, 121] = [66, 111, 100, 121]"
  by (simp add: after_first_line_def example_first_line)

lemma example_trims: "trim [84, 105, 116, 108, 101] = str ''Title''" "trim [66, 111, 100, 121] = str ''Body''"
  by (simp_all add: trim_def js_whitespace_values str_def)

lemma title_icon: "getSectionIcon id second (str ''Title'') = (if js_includes second (str ''Title'') then Wrench else Bug)"
  by (simp add: getSectionIcon_def str_def)

lemma no_solutions: "\<not> js_includes (str ''solutions'') (str ''Title'')"
  by (simp add: str_def)

lemma sections_example: "sections_of leading_blank_text = [leading_blank_text]"
  using example_no_hashes example_trimmed by (intro sections_of_whole) simp_all

text \<open>
  C10 as stated fails on a text that begins with a blank line: its one section is titled
  by the second line, while the first line of the text, trimmed, is empty.
\<close>

theorem formatResponse_leading_blank_line_counterexample:
  "formatResponse id (Some leading_blank_text) =
     Inr (Elements [\<lparr>el_key = 0, el_icon = Bug, el_title = str ''Title'', el_content = str ''Body'',
                     el_paragraphs = [str ''Body'']\<rparr>])
   \<and> \<not> js_includes hashes leading_blank_text
   \<and> trim (first_line leading_blank_text) = []"
proof -
  have ne: "leading_blank_text \<noteq> []"
    by (simp add: leading_blank_text_value)
  have r: "render_section id (str ''solutions'') False (0, leading_blank_text) =
      Inr \<lparr>el_key = 0, el_icon = Bug, el_title = str ''Title'', el_content = str ''Body'',
                     el_paragraphs = [str ''Body'']\<rparr>"
    by (simp add: render_section_eq example_trimmed example_first_line example_after_first_line
        example_trims title_icon no_solutions)
  have "formatResponse id (Some leading_blank_text) =
     Inr (Elements [\<lparr>el_key = 0, el_icon = Bug, el_title = str ''Title'', el_content = str ''Body'',
                     el_paragraphs = [str ''Body'']\<rparr>])"
    using ne
    by (simp add: formatResponse_def format_with_def sections_of_def [symmetric] sections_example r)
  moreover have "trim (first_line leading_blank_text) = []"
    by (simp add: leading_blank_text_value first_line_def trim_def)
  ultimately show ?thesis
    using example_no_hashes by blast
qed

theorem formatResponse_renders_sections_witness:
  "\<not> js_includes hashes leading_blank_text \<and> trim leading_blank_text \<noteq> []
   \<and> (\<exists>el. formatResponse id (Some leading_blank_text) = Inr (Elements [el])
          \<and> el_title el = str ''Title'' \<and> el_content el = str ''Body'')"
proof -
  have ne: "trim leading_blank_text \<noteq> []"
    by (simp add: example_trimmed)
  from formatResponse_renders_sections [of id]
  have "renders_sections (formatResponse id)"
    by (rule conjunct1)
  then have "\<exists>el. formatResponse id (Some leading_blank_text) = Inr (Elements [el])
               \<and> el_title el = trim (first_line (trim leading_blank_text))
               \<and> el_content el = trim (after_first_line (trim leading_blank_text))"
    unfolding renders_sections_def using example_no_hashes ne by blast
  then have "\<exists>el. formatResponse id (Some leading_blank_text) = Inr (Elements [el])
          \<and> el_title el = str ''Title'' \<and> el_content el = str ''Body''"
    by (simp add: example_trimmed example_first_line example_after_first_line example_trims)
  with example_no_hashes ne show ?thesis by blast
qed

end
